theory Spec2Isabelle
  imports Main "HOL-Library.AList" "HOL-Library.Finite_Map"
begin

section \<open>Values, objects and the heap\<close>

text \<open>
  A JavaScript value is a string, a number, a boolean, an array or a plain object; a plain
  object is the finite map of its own properties. The records of a collection
  are objects that the collection, its callers and the closures of a transaction all hold by
  reference, so records live in a heap and are passed around as references; the values of
  their properties are held by value.

  The property \<open>_id\<close> is typed \<open>string\<close> by \<open>QueryItem\<close>: \<open>item_id\<close> reads it, and reads a
  property that is absent (or, outside the input type, not a string) as \<open>undefined\<close>.
\<close>

datatype val = Str string | Num int | Bool bool | Arr "val list" | Obj "(string, val) fmap"

type_synonym obj = "(string, val) fmap"

type_synonym ref = nat

type_synonym cref = nat

type_synonym tref = nat

definition item_id :: "obj \<Rightarrow> string option" where
  "item_id item = (case fmlookup item ''_id'' of Some (Str s) \<Rightarrow> Some s | _ \<Rightarrow> None)"

text \<open>\<open>!item._id\<close>: the property is absent or the empty string.\<close>

definition falsy_id :: "obj \<Rightarrow> bool" where
  "falsy_id item = (case item_id item of None \<Rightarrow> True | Some s \<Rightarrow> s = [])"

text \<open>
  Modelled from the spec: \<open>deepAssign\<close> of the package \<open>@heraclius/js-tools\<close>, which is not
  part of the sources. The spec describes it as a deep merge of the given fields into the
  existing record: nested mapping fields merge recursively, scalar and array fields overwrite.
\<close>

primrec merge_val :: "val \<Rightarrow> val option \<Rightarrow> val" where
  "merge_val (Str s) old = Str s"
| "merge_val (Num n) old = Num n"
| "merge_val (Bool b) old = Bool b"
| "merge_val (Arr xs) old = Arr xs"
| "merge_val (Obj s) old =
     (case old of
        Some (Obj d) \<Rightarrow> Obj (d ++\<^sub>f fmmap_keys (\<lambda>k f. f (fmlookup d k)) (fmmap merge_val s))
      | _ \<Rightarrow> Obj s)"

definition deepAssign :: "obj \<Rightarrow> obj \<Rightarrow> obj" where
  "deepAssign dst src = dst ++\<^sub>f fmmap_keys (\<lambda>k v. merge_val v (fmlookup dst k)) src"

text \<open>
  Modelled from the spec: \<open>query\<close> of the package \<open>@heraclius/query\<close>, which is not part of the
  sources. The spec treats matching as an opaque predicate \<open>matches(item, condition)\<close>, so a
  condition is its predicate on records, and an absent condition matches everything. The one
  condition the sources build themselves is \<open>{_id: {$in: ids}}\<close>, here \<open>id_in ids\<close>.
\<close>

type_synonym QueryCondition = "obj \<Rightarrow> bool"

definition query :: "QueryCondition option \<Rightarrow> obj \<Rightarrow> bool" where
  "query condition = (case condition of None \<Rightarrow> (\<lambda>item. True) | Some p \<Rightarrow> p)"

definition id_in :: "string option list \<Rightarrow> QueryCondition" where
  "id_in ids item = (case item_id item of None \<Rightarrow> False | Some s \<Rightarrow> Some s \<in> set ids)"

section \<open>The state of the program\<close>

text \<open>
  \<open>MemoryCollection\<close> has a name and the private \<open>_map\<close>, a JavaScript \<open>Map\<close> from ids to
  records: an association list in insertion order, where \<open>set\<close> on a key that is present keeps
  its position (\<open>AList.update\<close>) and \<open>delete\<close> removes it (\<open>AList.delete\<close>).
\<close>

record MemoryCollection =
  name :: string
  mmap :: "(string \<times> ref) list"

text \<open>
  The closures a transaction pushes on \<open>_rollbackFns\<close>, by what they capture:
  \<open>() => collection.save(...result)\<close> and \<open>() => collection.save(data)\<close> are \<open>SaveFn\<close>,
  \<open>() => collection.delete({_id: {$in: result.map((item) => item._id)}})\<close> is \<open>DeleteFn\<close>;
  the ids of the latter are read when the closure runs.
\<close>

datatype rollbackFn = SaveFn cref "ref list" | DeleteFn cref "ref list"

text \<open>
  The fields of a transaction: \<open>tid\<close> is \<open>id\<close>, \<open>rollbackFns\<close> is \<open>_rollbackFns\<close>, \<open>begun\<close> is
  \<open>_begin\<close> and \<open>timeoutHandler\<close> is \<open>_timeoutHandler\<close>, \<open>None\<close> for \<open>undefined\<close>.
\<close>

record Transaction =
  tid :: string
  collection :: cref
  rollbackFns :: "rollbackFn list"
  begun :: bool
  timeoutHandler :: "nat option"

text \<open>
  The world: the heap of records, the collections, the supply of \<open>v4()\<close> identifiers (the
  \<open>n\<close>-th call returns \<open>v4_src n\<close>), the module-level registry \<open>map\<close> of transactions with the
  transaction objects, the pending timers (handle and the transaction whose callback it
  runs) and the console. The registry is a plain object \<open>{}\<close>: \<open>registry\<close> holds its own
  properties, and \<open>proto_collection\<close> the \<open>collection\<close> property that \<open>Transaction.get\<close> writes
  on an inherited member of \<open>Object.prototype\<close>.
\<close>

record world =
  heap :: "ref \<Rightarrow> obj"
  collections :: "cref \<Rightarrow> MemoryCollection"
  v4_src :: "nat \<Rightarrow> string"
  v4_count :: nat
  registry :: "(string \<times> tref) list"
  proto_collection :: "(string \<times> cref) list"
  transactions :: "tref \<Rightarrow> Transaction"
  tx_count :: nat
  timers :: "(nat \<times> tref) list"
  timer_count :: nat
  console :: "string list"

definition set_mmap :: "cref \<Rightarrow> (string \<times> ref) list \<Rightarrow> world \<Rightarrow> world" where
  "set_mmap c m w = w\<lparr>collections := (collections w)(c := (collections w c)\<lparr>mmap := m\<rparr>)\<rparr>"

definition upd_tx :: "tref \<Rightarrow> (Transaction \<Rightarrow> Transaction) \<Rightarrow> world \<Rightarrow> world" where
  "upd_tx t f w = w\<lparr>transactions := (transactions w)(t := f (transactions w t))\<rparr>"

section \<open>MemoryCollection\<close>

definition MemoryCollection_getById :: "cref \<Rightarrow> string \<Rightarrow> world \<Rightarrow> ref option" where
  "MemoryCollection_getById c i w = map_of (mmap (collections w c)) i"

definition MemoryCollection_deleteById :: "cref \<Rightarrow> string \<Rightarrow> world \<Rightarrow> bool \<times> world" where
  "MemoryCollection_deleteById c i w =
     (case map_of (mmap (collections w c)) i of
        Some result \<Rightarrow> (True, set_mmap c (AList.delete i (mmap (collections w c))) w)
      | None \<Rightarrow> (False, w))"

definition MemoryCollection_search :: "cref \<Rightarrow> QueryCondition option \<Rightarrow> world \<Rightarrow> ref list" where
  "MemoryCollection_search c condition w =
     filter (\<lambda>r. query condition (heap w r)) (map snd (mmap (collections w c)))"

definition MemoryCollection_searchOne :: "cref \<Rightarrow> QueryCondition option \<Rightarrow> world \<Rightarrow> ref option" where
  "MemoryCollection_searchOne c condition w =
     find (\<lambda>r. query condition (heap w r)) (map snd (mmap (collections w c)))"

text \<open>\<open>this._map.delete(value._id)\<close>; no key of the map is \<open>undefined\<close>.\<close>

definition delete_step :: "cref \<Rightarrow> ref \<Rightarrow> world \<Rightarrow> world" where
  "delete_step c r w =
     (case item_id (heap w r) of
        None \<Rightarrow> w
      | Some k \<Rightarrow> set_mmap c (AList.delete k (mmap (collections w c))) w)"

definition MemoryCollection_delete :: "cref \<Rightarrow> QueryCondition option \<Rightarrow> world \<Rightarrow> ref list \<times> world" where
  "MemoryCollection_delete c condition w =
     (let result = MemoryCollection_search c condition w
      in (result, fold (delete_step c) result w))"

text \<open>
  \<open>item._id = v4()\<close>, and one round of the loop of \<open>save\<close>; after the assignment the item
  has an id, so the last case of \<open>save_step\<close> with no id is never taken.
\<close>

definition assign_v4 :: "ref \<Rightarrow> world \<Rightarrow> world" where
  "assign_v4 r w =
     w\<lparr>heap := (heap w)(r := fmupd ''_id'' (Str (v4_src w (v4_count w))) (heap w r)),
       v4_count := Suc (v4_count w)\<rparr>"

definition save_step :: "cref \<Rightarrow> ref \<Rightarrow> world \<Rightarrow> world" where
  "save_step c r w =
     (let w1 = (if falsy_id (heap w r) then assign_v4 r w else w)
      in case item_id (heap w1 r) of
           None \<Rightarrow> w1
         | Some k \<Rightarrow> set_mmap c (AList.update k r (mmap (collections w1 c))) w1)"

definition MemoryCollection_save :: "cref \<Rightarrow> ref list \<Rightarrow> world \<Rightarrow> ref list \<times> world" where
  "MemoryCollection_save c items w = (items, fold (save_step c) items w)"

datatype error = Error string

definition not_found :: "string option \<Rightarrow> error" where
  "not_found i =
     Error (''Not found item in collection by id '' @ (case i of None \<Rightarrow> ''undefined'' | Some s \<Rightarrow> s))"

text \<open>
  \<open>update\<close> throws at the first item whose id has no record; what it did for the items
  before stays done, so the result is the error (if any) and the world reached.
\<close>

fun MemoryCollection_update :: "cref \<Rightarrow> ref list \<Rightarrow> world \<Rightarrow> error option \<times> world" where
  "MemoryCollection_update c [] w = (None, w)"
| "MemoryCollection_update c (r # items) w =
     (case item_id (heap w r) of
        None \<Rightarrow> (Some (not_found None), w)
      | Some k \<Rightarrow>
          (case map_of (mmap (collections w c)) k of
             None \<Rightarrow> (Some (not_found (Some k)), w)
           | Some oldData \<Rightarrow>
               (let w1 = w\<lparr>heap := (heap w)(oldData := deepAssign (heap w oldData) (heap w r))\<rparr>
                in MemoryCollection_update c items
                     (set_mmap c (AList.update k oldData (mmap (collections w1 c))) w1))))"

section \<open>Transaction\<close>

text \<open>
  Every method of the memory backend is synchronous, so each \<open>await\<close> of a transaction method
  continues at once; a method is one step of the model. The timer of \<open>begin\<close> is a pending
  entry of \<open>timers\<close>, and its firing is the step \<open>timer_fire\<close>; the 30 seconds are not modelled.
  The warning's text is kept up to the id.
\<close>

definition push_fn :: "tref \<Rightarrow> rollbackFn \<Rightarrow> world \<Rightarrow> world" where
  "push_fn t f w = upd_tx t (\<lambda>x. x\<lparr>rollbackFns := rollbackFns x @ [f]\<rparr>) w"

definition setTimeout :: "tref \<Rightarrow> world \<Rightarrow> nat \<times> world" where
  "setTimeout t w =
     (timer_count w, w\<lparr>timers := timers w @ [(timer_count w, t)], timer_count := Suc (timer_count w)\<rparr>)"

definition clearTimeout :: "nat option \<Rightarrow> world \<Rightarrow> world" where
  "clearTimeout h w = (case h of None \<Rightarrow> w | Some n \<Rightarrow> w\<lparr>timers := AList.delete n (timers w)\<rparr>)"

definition Transaction_begin :: "tref \<Rightarrow> world \<Rightarrow> world" where
  "Transaction_begin t w =
     (case timeoutHandler (transactions w t) of
        Some h \<Rightarrow> w
      | None \<Rightarrow>
          (let w1 = upd_tx t (\<lambda>x. x\<lparr>begun := True\<rparr>) w;
               (h, w2) = setTimeout t w1
           in upd_tx t (\<lambda>x. x\<lparr>timeoutHandler := Some h\<rparr>) w2))"

definition Transaction_end :: "tref \<Rightarrow> world \<Rightarrow> world" where
  "Transaction_end t w =
     (let w1 = upd_tx t (\<lambda>x. x\<lparr>begun := False\<rparr>) w;
          w2 = w1\<lparr>registry := AList.delete (tid (transactions w1 t)) (registry w1)\<rparr>;
          w3 = clearTimeout (timeoutHandler (transactions w2 t)) w2
      in upd_tx t (\<lambda>x. x\<lparr>timeoutHandler := None\<rparr>) w3)"

definition timer_fire :: "nat \<Rightarrow> world \<Rightarrow> world" where
  "timer_fire h w =
     (case map_of (timers w) h of
        None \<Rightarrow> w
      | Some t \<Rightarrow>
          (let w1 = Transaction_end t (w\<lparr>timers := AList.delete h (timers w)\<rparr>)
           in w1\<lparr>console := console w1 @ [''Transaction['' @ tid (transactions w1 t) @ '']'']\<rparr>))"

fun run_fn :: "rollbackFn \<Rightarrow> world \<Rightarrow> world" where
  "run_fn (SaveFn c result) w = snd (MemoryCollection_save c result w)"
| "run_fn (DeleteFn c result) w =
     snd (MemoryCollection_delete c (Some (id_in (map (\<lambda>r. item_id (heap w r)) result))) w)"

text \<open>
  \<open>for (let i = length - 1; i >= 0; i--) await this._rollbackFns[i]()\<close>: the counter of the
  model is \<open>i + 1\<close>, and each round reads the array as it is then.
\<close>

fun rollback_loop :: "tref \<Rightarrow> nat \<Rightarrow> world \<Rightarrow> world" where
  "rollback_loop t 0 w = w"
| "rollback_loop t (Suc i) w = rollback_loop t i (run_fn (rollbackFns (transactions w t) ! i) w)"

definition Transaction_rollback :: "tref \<Rightarrow> world \<Rightarrow> world" where
  "Transaction_rollback t w =
     (let w1 = rollback_loop t (length (rollbackFns (transactions w t))) w;
          w2 = upd_tx t (\<lambda>x. x\<lparr>rollbackFns := []\<rparr>) w1
      in Transaction_end t w2)"

definition Transaction_delete :: "tref \<Rightarrow> QueryCondition option \<Rightarrow> world \<Rightarrow> ref list \<times> world" where
  "Transaction_delete t condition w =
     (let c = collection (transactions w t);
          (result, w1) = MemoryCollection_delete c condition w
      in (result,
          if result \<noteq> [] \<and> begun (transactions w1 t) then push_fn t (SaveFn c result) w1 else w1))"

definition Transaction_deleteById :: "tref \<Rightarrow> string \<Rightarrow> world \<Rightarrow> bool \<times> world" where
  "Transaction_deleteById t i w =
     (let c = collection (transactions w t)
      in case MemoryCollection_getById c i w of
           Some data \<Rightarrow>
             MemoryCollection_deleteById c i
               (if begun (transactions w t) then push_fn t (SaveFn c [data]) w else w)
         | None \<Rightarrow> (True, w))"

definition Transaction_getById :: "tref \<Rightarrow> string \<Rightarrow> world \<Rightarrow> ref option" where
  "Transaction_getById t i w = MemoryCollection_getById (collection (transactions w t)) i w"

definition Transaction_name :: "tref \<Rightarrow> world \<Rightarrow> string" where
  "Transaction_name t w = name (collections w (collection (transactions w t)))"

definition Transaction_search :: "tref \<Rightarrow> QueryCondition option \<Rightarrow> world \<Rightarrow> ref list" where
  "Transaction_search t condition w =
     MemoryCollection_search (collection (transactions w t)) condition w"

definition Transaction_searchOne :: "tref \<Rightarrow> QueryCondition option \<Rightarrow> world \<Rightarrow> ref option" where
  "Transaction_searchOne t condition w =
     MemoryCollection_searchOne (collection (transactions w t)) condition w"

definition Transaction_save :: "tref \<Rightarrow> ref list \<Rightarrow> world \<Rightarrow> ref list \<times> world" where
  "Transaction_save t items w =
     (let c = collection (transactions w t);
          (result, w1) = MemoryCollection_save c items w
      in (result,
          if result \<noteq> [] \<and> begun (transactions w1 t) then push_fn t (DeleteFn c result) w1 else w1))"

definition Transaction_update :: "tref \<Rightarrow> ref list \<Rightarrow> world \<Rightarrow> error option \<times> world" where
  "Transaction_update t items w =
     (let c = collection (transactions w t);
          result = MemoryCollection_search c (Some (id_in (map (\<lambda>r. item_id (heap w r)) items))) w;
          (thrown, w1) = MemoryCollection_update c items w
      in case thrown of
           Some e \<Rightarrow> (Some e, w1)
         | None \<Rightarrow>
             (None,
              if result \<noteq> [] \<and> begun (transactions w1 t) then push_fn t (SaveFn c result) w1
              else w1))"

text \<open>The constructor: the fields' initial values, then \<open>this.begin()\<close>.\<close>

definition new_Transaction :: "string \<Rightarrow> cref \<Rightarrow> world \<Rightarrow> tref \<times> world" where
  "new_Transaction i c w =
     (let t = tx_count w;
          w1 = w\<lparr>transactions := (transactions w)
                  (t := \<lparr>tid = i, collection = c, rollbackFns = [], begun = False,
                         timeoutHandler = None\<rparr>),
                tx_count := Suc t\<rparr>
      in (t, Transaction_begin t w1))"

text \<open>
  \<open>map[id]\<close> on the plain object \<open>map\<close> finds an own property, and otherwise a member that
  every object inherits from \<open>Object.prototype\<close>; each of those is a function or an object,
  hence truthy. The member \<open>__proto__\<close> is \<open>Object.prototype\<close> itself, so the \<open>collection\<close> that
  \<open>Transaction.get\<close> writes on it is from then on inherited by every object, the registry
  too: \<open>map["collection"]\<close> is then that collection object. It is not an own property of any
  record.
\<close>

definition Object_prototype :: "string list" where
  "Object_prototype =
     [''constructor'', ''__defineGetter__'', ''__defineSetter__'', ''hasOwnProperty'',
      ''__lookupGetter__'', ''__lookupSetter__'', ''isPrototypeOf'', ''propertyIsEnumerable'',
      ''toString'', ''valueOf'', ''__proto__'', ''toLocaleString'']"

definition inherited :: "world \<Rightarrow> string \<Rightarrow> bool" where
  "inherited w i =
     (if i \<in> set Object_prototype then True
      else if i = ''collection'' then
        (case map_of (proto_collection w) ''__proto__'' of None \<Rightarrow> False | Some c \<Rightarrow> True)
      else False)"

text \<open>
  What \<open>Transaction.get\<close> returns: a transaction, or the inherited member of that name, on
  which it has then written \<open>collection\<close>.
\<close>

datatype got = Instance tref | Inherited string

definition Transaction_get :: "string \<Rightarrow> cref \<Rightarrow> world \<Rightarrow> got \<times> world" where
  "Transaction_get i c w =
     (case map_of (registry w) i of
        Some t \<Rightarrow> (Instance t, upd_tx t (\<lambda>x. x\<lparr>collection := c\<rparr>) w)
      | None \<Rightarrow>
          if inherited w i
          then (Inherited i, w\<lparr>proto_collection := AList.update i c (proto_collection w)\<rparr>)
          else
            (let (t, w1) = new_Transaction i c w;
                 w2 = w1\<lparr>registry := AList.update i t (registry w1)\<rparr>
             in (Instance t, upd_tx t (\<lambda>x. x\<lparr>collection := c\<rparr>) w2)))"

section \<open>Select\<close>

text \<open>
  \<open>_joinMap\<close> and \<open>_exposeMap\<close> are JavaScript \<open>Map\<close>s keyed by the collection object. A join
  callback takes the source record and fetches a record or an array of records, reading the
  world; an expose callback maps the fetched value to a part of the result.
\<close>

record Select =
  from_collection :: cref
  condition :: "QueryCondition option"
  joinMap :: "(cref \<times> (world \<Rightarrow> obj \<Rightarrow> val)) list"
  exposeMap :: "(cref \<times> (val \<Rightarrow> val)) list"

definition Select_expose :: "cref \<Rightarrow> (val \<Rightarrow> val) \<Rightarrow> Select \<Rightarrow> Select" where
  "Select_expose c cb s = s\<lparr>exposeMap := AList.update c cb (exposeMap s)\<rparr>"

definition Select_from :: "cref \<Rightarrow> Select" where
  "Select_from fromCollection =
     Select_expose fromCollection (\<lambda>v. v)
       \<lparr>from_collection = fromCollection, condition = None, joinMap = [], exposeMap = []\<rparr>"

definition Select_where :: "QueryCondition option \<Rightarrow> Select \<Rightarrow> Select" where
  "Select_where cond s = s\<lparr>condition := cond\<rparr>"

definition Select_join :: "cref \<Rightarrow> (world \<Rightarrow> obj \<Rightarrow> val) \<Rightarrow> Select \<Rightarrow> Select" where
  "Select_join c cb s =
     s\<lparr>joinMap := AList.update c cb (joinMap s), exposeMap := AList.update c (\<lambda>v. v) (exposeMap s)\<rparr>"

text \<open>
  \<open>Object.assign(target, source)\<close> copies the own enumerable properties of the source: the
  properties of an object, the elements of an array under their indices, the characters of a
  string under theirs, and nothing of any other value or of \<open>undefined\<close>.
\<close>

fun index_key :: "nat \<Rightarrow> string" where
  "index_key n =
     (if n < 10 then [''0123456789'' ! n]
      else index_key (n div 10) @ [''0123456789'' ! (n mod 10)])"

fun own_props :: "val \<Rightarrow> obj" where
  "own_props (Obj item) = item"
| "own_props (Arr xs) = fmap_of_list (zip (map index_key [0..<length xs]) xs)"
| "own_props (Str s) = fmap_of_list (zip (map index_key [0..<length s]) (map (\<lambda>ch. Str [ch]) s))"
| "own_props (Num n) = fmempty"
| "own_props (Bool b) = fmempty"

definition Object_assign :: "obj \<Rightarrow> val option \<Rightarrow> obj" where
  "Object_assign target source =
     (case source of None \<Rightarrow> target | Some v \<Rightarrow> target ++\<^sub>f own_props v)"

text \<open>\<open>this._exposeMap.get(c)?.(value)\<close>\<close>

definition exposed :: "Select \<Rightarrow> cref \<Rightarrow> val \<Rightarrow> val option" where
  "exposed s c v = map_option (\<lambda>cb. cb v) (map_of (exposeMap s) c)"

definition handleFromValue :: "Select \<Rightarrow> world \<Rightarrow> obj \<Rightarrow> obj" where
  "handleFromValue s w item =
     fold (\<lambda>(joinCollection, joinCB) result.
             Object_assign result (exposed s joinCollection (joinCB w item)))
       (joinMap s)
       (Object_assign fmempty (exposed s (from_collection s) (Obj item)))"

definition toOne :: "Select \<Rightarrow> world \<Rightarrow> obj option" where
  "toOne s w =
     (case MemoryCollection_searchOne (from_collection s) (condition s) w of
        None \<Rightarrow> None
      | Some fromValue \<Rightarrow> Some (handleFromValue s w (heap w fromValue)))"

definition toArray :: "Select \<Rightarrow> world \<Rightarrow> obj list" where
  "toArray s w =
     map (\<lambda>item. handleFromValue s w (heap w item))
       (MemoryCollection_search (from_collection s) (condition s) w)"

text \<open>
  The parts that \<open>_handleFromValue\<close> merges, as the code computes them: the properties
  copied from the source's projection of the source record and then, in the order of
  \<open>_joinMap\<close>, from each joined collection's projection of what its callback fetched.
\<close>

definition props_of :: "val option \<Rightarrow> obj" where
  "props_of source = (case source of None \<Rightarrow> fmempty | Some v \<Rightarrow> own_props v)"

definition projections :: "Select \<Rightarrow> world \<Rightarrow> obj \<Rightarrow> obj list" where
  "projections s w item =
     props_of (exposed s (from_collection s) (Obj item)) #
     map (\<lambda>(c, cb). props_of (exposed s c (cb w item))) (joinMap s)"

text \<open>
  The claim's wording of the merge: a property of the result has the value that the last part
  with that property gives it.
\<close>

definition merged :: "obj list \<Rightarrow> string \<Rightarrow> val option" where
  "merged ps k =
     (case find (\<lambda>p. k |\<in>| fmdom p) (rev ps) of None \<Rightarrow> None | Some p \<Rightarrow> fmlookup p k)"

section \<open>The records of the repository's tests\<close>

text \<open>
  The world of \<open>test/transaction.test.ts\<close>: the collection \<open>test\<close> (number 0), empty, and on
  the heap John (0), Jane (1), Alice without an id (2), the update of John (3) and a second
  record with John's id (4).
\<close>

definition test_world :: world where
  "test_world =
     \<lparr>heap = (\<lambda>r. fmempty)
         (0 := fmap_of_list [(''name'', Str ''John''), (''age'', Num 30), (''_id'', Str ''1'')],
          1 := fmap_of_list [(''name'', Str ''Jane''), (''age'', Num 25), (''_id'', Str ''2'')],
          2 := fmap_of_list [(''name'', Str ''Alice''), (''age'', Num 28)],
          3 := fmap_of_list [(''_id'', Str ''1''), (''name'', Str ''Johnny''), (''age'', Num 31)],
          4 := fmap_of_list [(''_id'', Str ''1''), (''name'', Str ''Eve'')]),
      collections = (\<lambda>c. \<lparr>name = ''test'', mmap = []\<rparr>),
      v4_src = (\<lambda>n. replicate (Suc n) CHR ''u''),
      v4_count = 0,
      registry = [],
      proto_collection = [],
      transactions = (\<lambda>t. \<lparr>tid = [], collection = 0, rollbackFns = [], begun = False,
                              timeoutHandler = None\<rparr>),
      tx_count = 0,
      timers = [],
      timer_count = 1,
      console = []\<rparr>"

text \<open>
  \<open>collection.save(item1, item2)\<close>, then \<open>new Transaction("1", collection)\<close>: the
  transaction is number 0 and its timer has the handle 1.
\<close>

definition stored_world :: world where
  "stored_world =
     snd (new_Transaction ''1'' 0 (snd (MemoryCollection_save 0 [0, 1] test_world)))"

text \<open>\<open>transaction.save({name: "Alice", age: 28})\<close> after that.\<close>

definition saved_world :: world where
  "saved_world = snd (Transaction_save 0 [2] stored_world)"

text \<open>\<open>transaction.update({_id: "1", name: "Johnny", age: 31})\<close> instead.\<close>

definition updated_world :: world where
  "updated_world = snd (Transaction_update 0 [3] stored_world)"


text \<open>
  The records of the repository's test of \<open>Select\<close>: the users Alice (10) and Bob (11) in
  collection 0, the posts 12 and 13 of Alice in collection 1, and a record (14) that a second
  join fetches for every user. \<open>posts_of\<close> is the test's callback
  \<open>(user) => posts.search({userId: user._id})\<close>, and \<open>posts_select\<close> the query
  \<open>Select.from(users).join(posts, posts_of).expose(posts, (posts) => ({posts})).join(c2, ...)\<close>.
\<close>

definition select_world :: world where
  "select_world =
     snd (MemoryCollection_save 1 [12, 13]
       (snd (MemoryCollection_save 0 [10, 11]
         (test_world
            \<lparr>heap := (\<lambda>r. fmempty)
               (10 := fmap_of_list [(''_id'', Str ''1''), (''name'', Str ''Alice'')],
                11 := fmap_of_list [(''_id'', Str ''2''), (''name'', Str ''Bob'')],
                12 := fmap_of_list [(''_id'', Str ''1''), (''title'', Str ''Post 1''), (''userId'', Str ''1'')],
                13 := fmap_of_list [(''_id'', Str ''2''), (''title'', Str ''Post 2''), (''userId'', Str ''1'')],
                14 := fmap_of_list [(''name'', Str ''Alicia''), (''city'', Str ''Oslo'')]),
              collections := (\<lambda>c. \<lparr>name = ''post'', mmap = []\<rparr>)
                (0 := \<lparr>name = ''user'', mmap = []\<rparr>)\<rparr>))))"

definition posts_of :: "world \<Rightarrow> obj \<Rightarrow> val" where
  "posts_of w user =
     Arr (map (\<lambda>r. Obj (heap w r))
       (MemoryCollection_search 1 (Some (\<lambda>post. fmlookup post ''userId'' = fmlookup user ''_id'')) w))"

definition posts_select :: Select where
  "posts_select =
     Select_join 2 (\<lambda>w user. Obj (heap w 14))
       (Select_expose 1 (\<lambda>posts. Obj (fmap_of_list [(''posts'', posts)]))
         (Select_join 1 posts_of (Select_from 0)))"

section \<open>Invariants and frames\<close>

text \<open>
  The part of the world that belongs to the transactions, and the part that belongs to the
  collections: the methods of a collection leave the first alone, the bookkeeping of a
  transaction the second.
\<close>

definition tx_state ::
  "world \<Rightarrow> (string \<times> tref) list \<times> (string \<times> cref) list \<times> (tref \<Rightarrow> Transaction) \<times> nat \<times>
     (nat \<times> tref) list \<times> nat \<times> string list" where
  "tx_state w =
     (registry w, proto_collection w, transactions w, tx_count w, timers w, timer_count w, console w)"

definition data_state ::
  "world \<Rightarrow> (ref \<Rightarrow> obj) \<times> (cref \<Rightarrow> MemoryCollection) \<times> (nat \<Rightarrow> string) \<times> nat" where
  "data_state w = (heap w, collections w, v4_src w, v4_count w)"

text \<open>
  The invariant of a collection in the data model: every record is stored under its own
  \<open>_id\<close>.
\<close>

definition keyed_by_id :: "cref \<Rightarrow> world \<Rightarrow> bool" where
  "keyed_by_id c w = list_all (\<lambda>(k, r). item_id (heap w r) = Some k) (mmap (collections w c))"

text \<open>The same, with every id truthy, as \<open>save\<close> leaves a collection.\<close>

definition well_keyed :: "cref \<Rightarrow> world \<Rightarrow> bool" where
  "well_keyed c w =
     list_all (\<lambda>(k, r). k \<noteq> [] \<and> item_id (heap w r) = Some k) (mmap (collections w c))"

text \<open>The record set of a collection: its ids with the records' fields, in the map's order.\<close>

definition records :: "cref \<Rightarrow> world \<Rightarrow> (string \<times> obj) list" where
  "records c w = map (\<lambda>(k, r). (k, heap w r)) (mmap (collections w c))"

text \<open>A sequence of \<open>save\<close> calls on a transaction, one list of items per call.\<close>

definition saves :: "tref \<Rightarrow> ref list list \<Rightarrow> world \<Rightarrow> world" where
  "saves t itemss w = fold (\<lambda>items w. snd (Transaction_save t items w)) itemss w"

text \<open>An item of \<open>update\<close> whose \<open>_id\<close> has no record in the collection.\<close>

definition missing :: "cref \<Rightarrow> world \<Rightarrow> ref \<Rightarrow> bool" where
  "missing c w r =
     (case item_id (heap w r) of None \<Rightarrow> True | Some k \<Rightarrow> MemoryCollection_getById c k w = None)"

lemma tx_state_set_mmap [simp]: "tx_state (set_mmap c m w) = tx_state w"
  by (simp add: tx_state_def set_mmap_def)

lemma tx_state_assign_v4 [simp]: "tx_state (assign_v4 r w) = tx_state w"
  by (simp add: tx_state_def assign_v4_def)

lemma tx_state_save_step [simp]: "tx_state (save_step c r w) = tx_state w"
  by (simp add: save_step_def Let_def split: option.splits)

lemma tx_state_delete_step [simp]: "tx_state (delete_step c r w) = tx_state w"
  by (simp add: delete_step_def split: option.splits)

lemma tx_state_fold_save [simp]: "tx_state (fold (save_step c) items w) = tx_state w"
  by (induction items arbitrary: w) simp_all

lemma tx_state_fold_delete [simp]: "tx_state (fold (delete_step c) items w) = tx_state w"
  by (induction items arbitrary: w) simp_all

lemma tx_state_run_fn [simp]: "tx_state (run_fn f w) = tx_state w"
  by (cases f) (simp_all add: MemoryCollection_save_def MemoryCollection_delete_def Let_def)

lemma tx_state_update [simp]: "tx_state (snd (MemoryCollection_update c items w)) = tx_state w"
proof (induction items arbitrary: w)
  case Nil
  show ?case by simp
next
  case (Cons r items)
  have "tx_state (w\<lparr>heap := h\<rparr>) = tx_state w" for h
    by (simp add: tx_state_def)
  with Cons show ?case
    by (simp add: Let_def split: option.splits)
qed

lemma tx_stateD:
  assumes "tx_state w' = tx_state w"
  shows "transactions w' = transactions w" and "registry w' = registry w"
    and "timers w' = timers w" and "console w' = console w"
    and "tx_count w' = tx_count w" and "timer_count w' = timer_count w"
    and "proto_collection w' = proto_collection w"
  using assms by (simp_all add: tx_state_def)

lemmas run_fn_tx = tx_stateD [OF tx_state_run_fn]

lemma data_state_upd_tx [simp]: "data_state (upd_tx t f w) = data_state w"
  by (simp add: data_state_def upd_tx_def)

lemma data_state_clearTimeout [simp]: "data_state (clearTimeout h w) = data_state w"
  by (simp add: data_state_def clearTimeout_def split: option.splits)

lemma data_state_end [simp]: "data_state (Transaction_end t w) = data_state w"
proof -
  have "data_state (w\<lparr>registry := g\<rparr>) = data_state w" for w :: world and g
    by (simp add: data_state_def)
  then show ?thesis
    by (simp add: Transaction_end_def Let_def)
qed

lemma data_stateD:
  assumes "data_state w' = data_state w"
  shows "heap w' = heap w" and "collections w' = collections w"
    and "v4_src w' = v4_src w" and "v4_count w' = v4_count w"
  using assms by (simp_all add: data_state_def)

section \<open>Ending a transaction\<close>

lemma map_of_delete_same: "map_of (AList.delete k al) k = None"
  by (simp add: AList.delete_conv')

lemma Transaction_end_eq:
  "Transaction_end t w =
     w\<lparr>transactions := (transactions w)(t := (transactions w t)\<lparr>begun := False, timeoutHandler := None\<rparr>),
       registry := AList.delete (tid (transactions w t)) (registry w),
       timers := (case timeoutHandler (transactions w t) of
                    None \<Rightarrow> timers w
                  | Some h \<Rightarrow> AList.delete h (timers w))\<rparr>"
  by (cases "timeoutHandler (transactions w t)")
     (simp_all add: Transaction_end_def upd_tx_def clearTimeout_def Let_def)

lemma Transaction_end_tx:
  "transactions (Transaction_end t w) t = (transactions w t)\<lparr>begun := False, timeoutHandler := None\<rparr>"
  by (simp add: Transaction_end_eq)

lemma Transaction_end_registry:
  "registry (Transaction_end t w) = AList.delete (tid (transactions w t)) (registry w)"
  by (simp add: Transaction_end_eq)

text \<open>
  Claim C7. \<open>end()\<close> marks the transaction inactive, removes the entry of the registry under
  the transaction's id and cancels the timer, and changes nothing else: the world after it is
  the world before with these three updates, and the compensation log is as it was.
\<close>

theorem Transaction_end_frame:
  "Transaction_end t w =
     w\<lparr>transactions := (transactions w)(t := (transactions w t)\<lparr>begun := False, timeoutHandler := None\<rparr>),
       registry := AList.delete (tid (transactions w t)) (registry w),
       timers := (case timeoutHandler (transactions w t) of
                    None \<Rightarrow> timers w
                  | Some h \<Rightarrow> AList.delete h (timers w))\<rparr>
   \<and> rollbackFns (transactions (Transaction_end t w) t) = rollbackFns (transactions w t)
   \<and> map_of (registry (Transaction_end t w)) (tid (transactions w t)) = None
   \<and> (case timeoutHandler (transactions w t) of
        None \<Rightarrow> True
      | Some h \<Rightarrow> map_of (timers (Transaction_end t w)) h = None)"
proof -
  have "map_of (timers (Transaction_end t w)) h = None"
    if "timeoutHandler (transactions w t) = Some h" for h
    using that by (simp add: Transaction_end_eq map_of_delete_same)
  then show ?thesis
    using Transaction_end_eq [of t w]
    by (simp add: Transaction_end_tx Transaction_end_registry map_of_delete_same split: option.splits)
qed

section \<open>Rollback\<close>

lemma rollback_loop_fold:
  "n \<le> length (rollbackFns (transactions w t)) \<Longrightarrow>
   rollback_loop t n w = fold run_fn (rev (take n (rollbackFns (transactions w t)))) w"
proof (induction n arbitrary: w)
  case 0
  show ?case by simp
next
  case (Suc n)
  let ?fns = "rollbackFns (transactions w t)"
  let ?w = "run_fn (?fns ! n) w"
  have same: "transactions ?w = transactions w"
    by (rule run_fn_tx)
  from Suc.prems have n: "n < length ?fns" by simp
  have "rollback_loop t (Suc n) w = rollback_loop t n ?w"
    by simp
  also have "\<dots> = fold run_fn (rev (take n ?fns)) ?w"
    using Suc.IH [of ?w] n by (simp add: same)
  also have "\<dots> = fold run_fn (rev (take (Suc n) ?fns)) w"
    using n by (simp add: take_Suc_conv_app_nth)
  finally show ?case .
qed

lemma tx_state_fold_run_fn [simp]: "tx_state (fold run_fn fs w) = tx_state w"
  by (induction fs arbitrary: w) simp_all

text \<open>
  Claim C4. \<open>rollback()\<close> runs the logged compensations one after the other, the most
  recently registered first (a fold over the reversed log), then empties the log and calls
  \<open>end()\<close>; afterwards the log is empty, the transaction is inactive and without a timer, and
  the registry has no entry under its id.
\<close>

theorem rollback_reverse_order:
  "Transaction_rollback t w =
     Transaction_end t
       (upd_tx t (\<lambda>x. x\<lparr>rollbackFns := []\<rparr>) (fold run_fn (rev (rollbackFns (transactions w t))) w))
   \<and> rollbackFns (transactions (Transaction_rollback t w) t) = []
   \<and> begun (transactions (Transaction_rollback t w) t) = False
   \<and> timeoutHandler (transactions (Transaction_rollback t w) t) = None
   \<and> map_of (registry (Transaction_rollback t w)) (tid (transactions w t)) = None"
proof -
  let ?fns = "rollbackFns (transactions w t)"
  let ?w1 = "fold run_fn (rev ?fns) w"
  let ?w2 = "upd_tx t (\<lambda>x. x\<lparr>rollbackFns := []\<rparr>) ?w1"
  have loop: "rollback_loop t (length ?fns) w = ?w1"
    by (simp add: rollback_loop_fold)
  have same: "transactions ?w1 = transactions w"
    by (rule tx_stateD [OF tx_state_fold_run_fn])
  have unfolded: "Transaction_rollback t w = Transaction_end t ?w2"
    by (simp add: Transaction_rollback_def Let_def loop)
  have tid: "tid (transactions ?w2 t) = tid (transactions w t)"
    and fns: "rollbackFns (transactions ?w2 t) = []"
    by (simp_all add: upd_tx_def same)
  show ?thesis
    unfolding unfolded
    by (simp add: Transaction_end_tx Transaction_end_registry tid fns map_of_delete_same)
qed

section \<open>The timer\<close>

text \<open>
  Claim C5, as amended. When the timer of a transaction fires, the transaction is ended: it
  becomes inactive and the registry loses the entry under its id, a warning is printed, no
  compensation runs (the heap and the collections are as before), and the compensation log
  stays as it was.
\<close>

theorem timer_fire_ends_without_rollback:
  assumes "map_of (timers w) h = Some t"
  shows "begun (transactions (timer_fire h w) t) = False
    \<and> map_of (registry (timer_fire h w)) (tid (transactions w t)) = None
    \<and> heap (timer_fire h w) = heap w
    \<and> collections (timer_fire h w) = collections w
    \<and> rollbackFns (transactions (timer_fire h w) t) = rollbackFns (transactions w t)
    \<and> console (timer_fire h w) = console w @ [''Transaction['' @ tid (transactions w t) @ '']'']"
proof -
  let ?w0 = "w\<lparr>timers := AList.delete h (timers w)\<rparr>"
  let ?w1 = "Transaction_end t ?w0"
  have fire: "timer_fire h w = ?w1\<lparr>console := console ?w1 @ [''Transaction['' @ tid (transactions ?w1 t) @ '']'']\<rparr>"
    using assms by (simp add: timer_fire_def Let_def)
  have "data_state ?w1 = data_state ?w0"
    by simp
  also have "\<dots> = data_state w"
    by (simp add: data_state_def)
  finally have data: "heap ?w1 = heap w" "collections ?w1 = collections w"
    by (simp_all add: data_state_def)
  show ?thesis
    unfolding fire by (simp add: Transaction_end_eq map_of_delete_same)
qed

theorem timer_fire_witness:
  "map_of (timers saved_world) 1 = Some 0
   \<and> begun (transactions (timer_fire 1 saved_world) 0) = False
   \<and> map_of (registry (timer_fire 1 saved_world)) ''1'' = None
   \<and> mmap (collections (timer_fire 1 saved_world) 0) = [(''1'', 0), (''2'', 1), (''u'', 2)]
   \<and> rollbackFns (transactions (timer_fire 1 saved_world) 0) = [DeleteFn 0 [2]]"
proof -
  have h: "map_of (timers saved_world) 1 = Some 0"
    by code_simp
  have m: "mmap (collections saved_world 0) = [(''1'', 0), (''2'', 1), (''u'', 2)]"
    by code_simp
  have f: "rollbackFns (transactions saved_world 0) = [DeleteFn 0 [2]]"
    by code_simp
  have i: "tid (transactions saved_world 0) = ''1''"
    by code_simp
  from timer_fire_ends_without_rollback [OF h] h m f i show ?thesis
    by simp
qed

text \<open>
  The log is not discarded: after the timer fired on the transaction that saved Alice, the
  log still holds the compensation of the save, and a later \<open>rollback()\<close> runs it.
\<close>

theorem timer_fire_keeps_log:
  "rollbackFns (transactions (timer_fire 1 saved_world) 0) = [DeleteFn 0 [2]]
   \<and> mmap (collections (timer_fire 1 saved_world) 0) = [(''1'', 0), (''2'', 1), (''u'', 2)]
   \<and> mmap (collections (Transaction_rollback 0 (timer_fire 1 saved_world)) 0) = [(''1'', 0), (''2'', 1)]"
  by code_simp

section \<open>Deleting an id that has no record\<close>

text \<open>
  Claim C3. For an id that has no record, \<open>deleteById\<close> of the backend returns false and
  leaves the world as it is. \<open>Transaction.deleteById\<close> leaves the world as it is too (no
  compensation is logged, so a later rollback has nothing to do for the call), but it returns
  true where the claim, the interface's documentation and the backend say false.
\<close>

theorem deleteById_missing:
  assumes "MemoryCollection_getById (collection (transactions w t)) i w = None"
  shows "MemoryCollection_deleteById (collection (transactions w t)) i w = (False, w)
    \<and> Transaction_deleteById t i w = (True, w)"
  using assms
  by (simp add: MemoryCollection_deleteById_def Transaction_deleteById_def
      MemoryCollection_getById_def)

theorem deleteById_missing_witness:
  "MemoryCollection_getById (collection (transactions stored_world 0)) ''3'' stored_world = None
   \<and> MemoryCollection_deleteById 0 ''3'' stored_world = (False, stored_world)
   \<and> Transaction_deleteById 0 ''3'' stored_world = (True, stored_world)"
proof -
  have c: "collection (transactions stored_world 0) = 0"
    by code_simp
  have h: "MemoryCollection_getById (collection (transactions stored_world 0)) ''3'' stored_world = None"
    by code_simp
  from deleteById_missing [OF h] h show ?thesis
    by (simp add: c)
qed

section \<open>The registry accessor\<close>

text \<open>
  For an id that is registered, \<open>Transaction.get\<close> returns the registered instance and points
  it at the given collection; its log and its state stay. For an id that is neither registered
  nor the name of a member that the registry inherits, it constructs a transaction (which
  begins at once) and registers it.
\<close>

lemma Transaction_get_registered:
  assumes "map_of (registry w) i = Some t"
  shows "Transaction_get i c w = (Instance t, upd_tx t (\<lambda>x. x\<lparr>collection := c\<rparr>) w)"
    and "rollbackFns (transactions (snd (Transaction_get i c w)) t) = rollbackFns (transactions w t)"
    and "begun (transactions (snd (Transaction_get i c w)) t) = begun (transactions w t)"
    and "collection (transactions (snd (Transaction_get i c w)) t) = c"
  using assms by (simp_all add: Transaction_get_def upd_tx_def)

lemma Transaction_get_new:
  assumes "map_of (registry w) i = None" and "\<not> inherited w i"
  shows "fst (Transaction_get i c w) = Instance (tx_count w)"
    and "map_of (registry (snd (Transaction_get i c w))) i = Some (tx_count w)"
    and "transactions (snd (Transaction_get i c w)) (tx_count w) =
           \<lparr>tid = i, collection = c, rollbackFns = [], begun = True,
            timeoutHandler = Some (timer_count w)\<rparr>"
    and "timers (snd (Transaction_get i c w)) = timers w @ [(timer_count w, tx_count w)]"
  using assms
  by (simp_all add: Transaction_get_def new_Transaction_def Transaction_begin_def setTimeout_def
      upd_tx_def Let_def update_conv')

text \<open>
  Claim C6. The claim holds for the ids above, and fails for the twelve ids that name a member
  of \<open>Object.prototype\<close>: \<open>map[id]\<close> is then the inherited member, so \<open>Transaction.get\<close>
  constructs nothing, registers nothing, begins nothing, writes \<open>collection\<close> on the inherited
  member and returns it.
\<close>

theorem Transaction_get_inherited:
  assumes "i \<in> set Object_prototype" and "map_of (registry w) i = None"
  shows "Transaction_get i c w =
           (Inherited i, w\<lparr>proto_collection := AList.update i c (proto_collection w)\<rparr>)"
  using assms by (simp add: Transaction_get_def inherited_def)

theorem Transaction_get_inherited_witness:
  "''constructor'' \<in> set Object_prototype \<and> map_of (registry test_world) ''constructor'' = None
   \<and> Transaction_get ''constructor'' 0 test_world =
       (Inherited ''constructor'', test_world\<lparr>proto_collection := [(''constructor'', 0)]\<rparr>)
   \<and> registry (snd (Transaction_get ''constructor'' 0 test_world)) = []
   \<and> tx_count (snd (Transaction_get ''constructor'' 0 test_world)) = 0
   \<and> timers (snd (Transaction_get ''constructor'' 0 test_world)) = []"
proof -
  have a: "''constructor'' \<in> set Object_prototype"
    by (simp add: Object_prototype_def)
  have b: "map_of (registry test_world) ''constructor'' = None"
    by (simp add: test_world_def)
  have c: "proto_collection test_world = []" "registry test_world = []" "tx_count test_world = 0"
    "timers test_world = []"
    by (simp_all add: test_world_def)
  from Transaction_get_inherited [OF a b, of 0] a b show ?thesis
    by (simp add: c)
qed

text \<open>
  After \<open>Transaction.get("__proto__", c)\<close> the registry inherits \<open>collection\<close> as well, and the
  id \<open>collection\<close> fares like the twelve.
\<close>

lemma Transaction_get_after_proto:
  "fst (Transaction_get ''collection'' 1 (snd (Transaction_get ''__proto__'' 0 test_world))) =
     Inherited ''collection''
   \<and> registry (snd (Transaction_get ''collection'' 1 (snd (Transaction_get ''__proto__'' 0 test_world)))) = []
   \<and> fst (Transaction_get ''collection'' 1 test_world) = Instance 0"
  by code_simp

section \<open>Update\<close>

lemma item_id_deepAssign:
  assumes "item_id src = Some k"
  shows "item_id (deepAssign dst src) = Some k"
proof -
  from assms have "fmlookup src ''_id'' = Some (Str k)"
    by (auto simp: item_id_def split: option.splits val.splits)
  then have "fmlookup (deepAssign dst src) ''_id'' = Some (Str k)"
    by (simp add: deepAssign_def fmdomI)
  then show ?thesis
    by (simp add: item_id_def)
qed

lemma update_same: "map_of al k = Some v \<Longrightarrow> AList.update k v al = al"
  by (induction al) auto

lemma keyed_by_idD:
  "keyed_by_id c w \<Longrightarrow> map_of (mmap (collections w c)) k = Some r \<Longrightarrow> item_id (heap w r) = Some k"
  by (auto simp: keyed_by_id_def list_all_iff dest: map_of_SomeD)

lemma MemoryCollection_update_not_found:
  assumes "keyed_by_id c w" and "find (missing c w) items = Some r"
  shows "fst (MemoryCollection_update c items w) = Some (not_found (item_id (heap w r)))"
  using assms
proof (induction items arbitrary: w)
  case Nil
  then show ?case by simp
next
  case (Cons x items)
  show ?case
  proof (cases "missing c w x")
    case True
    with Cons.prems have "r = x" by simp
    with True show ?thesis
      by (auto simp: missing_def MemoryCollection_getById_def split: option.splits)
  next
    case False
    then obtain k oldData where k: "item_id (heap w x) = Some k"
      and old: "map_of (mmap (collections w c)) k = Some oldData"
      by (auto simp: missing_def MemoryCollection_getById_def split: option.splits)
    define w1 where "w1 = w\<lparr>heap := (heap w)(oldData := deepAssign (heap w oldData) (heap w x))\<rparr>"
    define w2 where "w2 = set_mmap c (AList.update k oldData (mmap (collections w1 c))) w1"
    have step: "MemoryCollection_update c (x # items) w = MemoryCollection_update c items w2"
      by (simp add: k old w1_def w2_def Let_def)
    have "item_id (heap w oldData) = Some k"
      using Cons.prems(1) old by (rule keyed_by_idD)
    then have ids: "item_id (heap w2 y) = item_id (heap w y)" for y
      by (simp add: w2_def w1_def set_mmap_def item_id_deepAssign k)
    have m: "mmap (collections w2 c) = mmap (collections w c)"
      by (simp add: w2_def w1_def set_mmap_def update_same old)
    have keyed: "keyed_by_id c w2"
      using Cons.prems(1) by (simp add: keyed_by_id_def m ids)
    have "MemoryCollection_getById c i w2 = MemoryCollection_getById c i w" for i
      by (simp add: MemoryCollection_getById_def m)
    then have "missing c w2 = missing c w"
      by (simp add: missing_def ids fun_eq_iff split: option.splits)
    with Cons.prems(2) False have "find (missing c w2) items = Some r"
      by simp
    with keyed have "fst (MemoryCollection_update c items w2) = Some (not_found (item_id (heap w2 r)))"
      by (rule Cons.IH)
    then show ?thesis
      by (simp only: step ids)
  qed
qed

text \<open>
  Claim C8. In a collection that stores every record under its own \<open>_id\<close>, an \<open>update\<close> through
  a transaction with an item whose \<open>_id\<close> has no record returns the error "Not found" for the
  first such item, and the compensation log of the transaction is as before the call.
\<close>

theorem update_not_found_no_compensation:
  assumes "keyed_by_id (collection (transactions w t)) w"
    and "find (missing (collection (transactions w t)) w) items = Some r"
  shows "fst (Transaction_update t items w) = Some (not_found (item_id (heap w r)))
    \<and> rollbackFns (transactions (snd (Transaction_update t items w)) t) = rollbackFns (transactions w t)"
proof -
  let ?c = "collection (transactions w t)"
  obtain thrown w1 where u: "MemoryCollection_update ?c items w = (thrown, w1)"
    by (cases "MemoryCollection_update ?c items w")
  from MemoryCollection_update_not_found [OF assms] u
  have thrown: "thrown = Some (not_found (item_id (heap w r)))"
    by simp
  have "tx_state w1 = tx_state w"
    using tx_state_update [of ?c items w] u by simp
  then have "transactions w1 = transactions w"
    by (rule tx_stateD)
  with thrown u show ?thesis
    by (simp add: Transaction_update_def Let_def)
qed

theorem update_not_found_witness:
  "keyed_by_id (collection (transactions stored_world 0)) stored_world
   \<and> find (missing (collection (transactions stored_world 0)) stored_world) [3, 2] = Some 2
   \<and> fst (Transaction_update 0 [3, 2] stored_world) =
       Some (Error ''Not found item in collection by id undefined'')
   \<and> rollbackFns (transactions (snd (Transaction_update 0 [3, 2] stored_world)) 0) = []"
proof -
  have a: "keyed_by_id (collection (transactions stored_world 0)) stored_world"
    by code_simp
  have b: "find (missing (collection (transactions stored_world 0)) stored_world) [3, 2] = Some 2"
    by code_simp
  have c: "item_id (heap stored_world 2) = None" "rollbackFns (transactions stored_world 0) = []"
    by code_simp+
  from update_not_found_no_compensation [OF a b] a b show ?thesis
    by (simp add: c not_found_def)
qed

section \<open>Save\<close>

lemma save_step_v4_src [simp]: "v4_src (save_step c r w) = v4_src w"
  by (simp add: save_step_def assign_v4_def set_mmap_def Let_def split: option.splits)

lemma fold_save_v4_src [simp]: "v4_src (fold (save_step c) items w) = v4_src w"
  by (induction items arbitrary: w) simp_all

lemma save_step_v4_count: "v4_count w \<le> v4_count (save_step c r w)"
  by (simp add: save_step_def assign_v4_def set_mmap_def Let_def split: option.splits)

lemma fold_save_v4_count: "v4_count w \<le> v4_count (fold (save_step c) items w)"
proof (induction items arbitrary: w)
  case Nil
  show ?case by simp
next
  case (Cons r items)
  have "v4_count w \<le> v4_count (save_step c r w)"
    by (rule save_step_v4_count)
  also have "\<dots> \<le> v4_count (fold (save_step c) items (save_step c r w))"
    by (rule Cons.IH)
  finally show ?case by simp
qed

lemma item_id_assigned: "item_id (fmupd ''_id'' (Str u) item) = Some u"
  by (simp add: item_id_def)

text \<open>What one round of the loop does, by whether the item carries an id.\<close>

lemma save_step_falsy:
  assumes "falsy_id (heap w r)"
  shows "save_step c r w =
    set_mmap c (AList.update (v4_src w (v4_count w)) r (mmap (collections w c))) (assign_v4 r w)"
  using assms
  by (simp add: save_step_def Let_def assign_v4_def item_id_assigned set_mmap_def)

lemma save_step_truthy:
  assumes "\<not> falsy_id (heap w r)"
  obtains k where "item_id (heap w r) = Some k" and "k \<noteq> []"
    and "save_step c r w = set_mmap c (AList.update k r (mmap (collections w c))) w"
  using assms
  by (auto simp: save_step_def Let_def falsy_id_def split: option.splits)

lemma save_step_heap_truthy:
  "\<not> falsy_id (heap w x) \<Longrightarrow> heap (save_step c r w) x = heap w x"
  by (cases "falsy_id (heap w r)")
     (auto simp: save_step_falsy assign_v4_def set_mmap_def elim: save_step_truthy [of w r c])

lemma save_step_heap_other:
  "x \<noteq> r \<Longrightarrow> heap (save_step c r w) x = heap w x"
  by (cases "falsy_id (heap w r)")
     (auto simp: save_step_falsy assign_v4_def set_mmap_def elim: save_step_truthy [of w r c])

lemma fold_save_heap_truthy:
  "\<not> falsy_id (heap w x) \<Longrightarrow> heap (fold (save_step c) items w) x = heap w x"
  by (induction items arbitrary: w) (simp_all add: save_step_heap_truthy)

lemma fold_save_heap_other:
  "x \<notin> set items \<Longrightarrow> heap (fold (save_step c) items w) x = heap w x"
  by (induction items arbitrary: w) (simp_all add: save_step_heap_other)

lemma save_step_filled:
  assumes "v4_src w (v4_count w) \<noteq> []"
  shows "\<not> falsy_id (heap (save_step c r w) r)"
proof (cases "falsy_id (heap w r)")
  case True
  with assms show ?thesis
    by (simp add: save_step_falsy assign_v4_def set_mmap_def falsy_id_def item_id_assigned)
next
  case False
  then show ?thesis
    by (simp add: save_step_heap_truthy)
qed

lemma fold_save_filled:
  assumes "\<forall>n. v4_src w n \<noteq> []" and "r \<in> set items"
  shows "\<not> falsy_id (heap (fold (save_step c) items w) r)"
  using assms
proof (induction items arbitrary: w)
  case Nil
  then show ?case by simp
next
  case (Cons x items)
  let ?w = "save_step c x w"
  have v4: "\<forall>n. v4_src ?w n \<noteq> []"
    using Cons.prems(1) by simp
  show ?case
  proof (cases "r = x")
    case True
    have "\<not> falsy_id (heap ?w x)"
      using Cons.prems(1) by (simp add: save_step_filled)
    then show ?thesis
      by (simp add: True fold_save_heap_truthy)
  next
    case False
    with Cons.prems(2) have "r \<in> set items" by simp
    with v4 show ?thesis
      by (simp add: Cons.IH)
  qed
qed

text \<open>An item without an id holds, after the call, one of the identifiers drawn in the call.\<close>

lemma fold_save_heap_falsy:
  assumes "\<forall>n. v4_src w n \<noteq> []" and "r \<in> set items" and "falsy_id (heap w r)"
  shows "\<exists>n. v4_count w \<le> n \<and> n < v4_count (fold (save_step c) items w)
           \<and> heap (fold (save_step c) items w) r = fmupd ''_id'' (Str (v4_src w n)) (heap w r)"
  using assms
proof (induction items arbitrary: w)
  case Nil
  then show ?case by simp
next
  case (Cons x items)
  let ?w = "save_step c x w"
  let ?w' = "fold (save_step c) items ?w"
  have v4: "\<forall>n. v4_src ?w n \<noteq> []"
    using Cons.prems(1) by simp
  show ?case
  proof (cases "r = x")
    case True
    have step: "heap ?w x = fmupd ''_id'' (Str (v4_src w (v4_count w))) (heap w x)"
      and count: "v4_count ?w = Suc (v4_count w)"
      using Cons.prems(3) by (simp_all add: True save_step_falsy assign_v4_def set_mmap_def)
    have "\<not> falsy_id (heap ?w x)"
      using Cons.prems(1) by (simp add: save_step_filled)
    then have "heap ?w' x = heap ?w x"
      by (rule fold_save_heap_truthy)
    moreover have "v4_count ?w \<le> v4_count ?w'"
      by (rule fold_save_v4_count)
    ultimately show ?thesis
      using step count by (intro exI [of _ "v4_count w"]) (simp add: True)
  next
    case False
    with Cons.prems have "r \<in> set items" and "falsy_id (heap ?w r)"
      by (simp_all add: save_step_heap_other)
    from Cons.IH [OF v4 this] obtain n where n: "v4_count ?w \<le> n" "n < v4_count ?w'"
      and h: "heap ?w' r = fmupd ''_id'' (Str (v4_src ?w n)) (heap ?w r)"
      by blast
    have "v4_count w \<le> n"
      using n(1) save_step_v4_count [of w c x] by simp
    with n(2) h False show ?thesis
      by (intro exI [of _ n]) (simp add: save_step_heap_other)
  qed
qed






section \<open>Select\<close>

lemma Object_assign_props: "Object_assign target source = target ++\<^sub>f props_of source"
  by (simp add: Object_assign_def props_of_def split: option.splits)

lemma fold_Object_assign:
  "fold (\<lambda>(c, cb) result. Object_assign result (exposed s c (cb w item))) js r0 =
   foldl (++\<^sub>f) r0 (map (\<lambda>(c, cb). props_of (exposed s c (cb w item))) js)"
  by (induction js arbitrary: r0) (simp_all add: Object_assign_props split_beta)

lemma handleFromValue_foldl:
  "handleFromValue s w item = foldl (++\<^sub>f) fmempty (projections s w item)"
  unfolding handleFromValue_def projections_def fold_Object_assign
  by (simp add: Object_assign_props)

lemma fmlookup_foldl_add:
  "fmlookup (foldl (++\<^sub>f) r0 ps) k =
     (case find (\<lambda>p. k |\<in>| fmdom p) (rev ps) of None \<Rightarrow> fmlookup r0 k | Some p \<Rightarrow> fmlookup p k)"
  by (induction ps rule: rev_induct) simp_all

lemma handleFromValue_merged: "fmlookup (handleFromValue s w item) = merged (projections s w item)"
  by (rule ext) (simp add: handleFromValue_foldl fmlookup_foldl_add merged_def split: option.splits)

lemma joinMap_Select_join:
  "map fst (joinMap (Select_join c cb s)) =
     (if c \<in> set (map fst (joinMap s)) then map fst (joinMap s) else map fst (joinMap s) @ [c])"
  by (simp add: Select_join_def update_keys)

lemma map_props_of_Obj: "map props_of (map (\<lambda>q. Some (Obj q)) ps) = ps"
  by (induction ps) (simp_all add: props_of_def)

lemma projections_parts:
  assumes "map_option (\<lambda>f. f (Obj item)) (map_of (exposeMap s) (from_collection s)) = Some (Obj p)"
    and "map (\<lambda>(c, cb). map_option (\<lambda>f. f (cb w item)) (map_of (exposeMap s) c)) (joinMap s) =
         map (\<lambda>q. Some (Obj q)) ps"
  shows "projections s w item = p # ps"
proof -
  have "map (\<lambda>(c, cb). props_of (exposed s c (cb w item))) (joinMap s) =
        map props_of (map (\<lambda>(c, cb). map_option (\<lambda>f. f (cb w item)) (map_of (exposeMap s) c)) (joinMap s))"
    by (simp add: exposed_def split_beta)
  also have "\<dots> = ps"
    by (simp only: assms(2) map_props_of_Obj)
  finally have joins: "map (\<lambda>(c, cb). props_of (exposed s c (cb w item))) (joinMap s) = ps" .
  from assms(1) have "props_of (exposed s (from_collection s) (Obj item)) = p"
    by (auto simp: exposed_def props_of_def)
  with joins show ?thesis
    by (simp add: projections_def)
qed

lemma toOne_identity:
  "toOne (Select_where cond (Select_from c)) w =
     map_option (heap w) (MemoryCollection_searchOne c cond w)"
  by (simp add: toOne_def Select_where_def Select_from_def Select_expose_def handleFromValue_def
      Object_assign_def exposed_def split: option.splits)

text \<open>
  Claim C9. \<open>toOne()\<close> returns nothing when \<open>searchOne\<close> on the source finds nothing.
  Otherwise, when the projection registered for the source maps the source record to the
  object \<open>p\<close>, and the projections registered for the joined collections map what their
  callbacks fetch for the source record to the objects \<open>ps\<close>, in the order of \<open>_joinMap\<close>, it
  returns one object: the empty object merged with \<open>p\<close> and then with each of \<open>ps\<close> in turn,
  where a later part overwrites an earlier one on a common property. With the default
  projection and no join the result is the source record's fields. The order of \<open>_joinMap\<close> is
  the order in which the collections were first joined: \<open>join\<close> appends a collection that is
  new and keeps the place of one that is not, and sets the callback in both cases; the
  projection of a collection is the identity after \<open>from\<close> and \<open>join\<close> and the given function
  after \<open>expose\<close>.
\<close>

theorem toOne_merges_projections:
  "(case MemoryCollection_searchOne (from_collection s) (condition s) w of
      None \<Rightarrow> toOne s w = None
    | Some fromValue \<Rightarrow>
        (map_option (\<lambda>f. f (Obj (heap w fromValue))) (map_of (exposeMap s) (from_collection s)) =
           Some (Obj p)
         \<and> map (\<lambda>(c, cb). map_option (\<lambda>f. f (cb w (heap w fromValue))) (map_of (exposeMap s) c))
             (joinMap s) = map (\<lambda>q. Some (Obj q)) ps
         \<longrightarrow> toOne s w = Some (foldl (++\<^sub>f) fmempty (p # ps))
             \<and> fmlookup (foldl (++\<^sub>f) fmempty (p # ps)) = merged (p # ps)))
   \<and> toOne (Select_where cond (Select_from c)) w =
       map_option (heap w) (MemoryCollection_searchOne c cond w)
   \<and> joinMap (Select_from c) = []
   \<and> map fst (joinMap (Select_join c cb s)) =
       (if c \<in> set (map fst (joinMap s)) then map fst (joinMap s) else map fst (joinMap s) @ [c])
   \<and> map_of (joinMap (Select_join c cb s)) c = Some cb
   \<and> map_of (exposeMap (Select_from c)) c = Some (\<lambda>v. v)
   \<and> map_of (exposeMap (Select_join c cb s)) c = Some (\<lambda>v. v)
   \<and> map_of (exposeMap (Select_expose c f s)) c = Some f"
proof -
  let ?found = "MemoryCollection_searchOne (from_collection s) (condition s) w"
  have from1: "joinMap (Select_from c) = []"
    and from2: "map_of (exposeMap (Select_from c)) c = Some (\<lambda>v. v)"
    by (simp_all add: Select_from_def Select_expose_def)
  have join1: "map_of (joinMap (Select_join c cb s)) c = Some cb"
    and join2: "map_of (exposeMap (Select_join c cb s)) c = Some (\<lambda>v. v)"
    by (simp_all add: Select_join_def update_conv')
  have expose1: "map_of (exposeMap (Select_expose c f s)) c = Some f"
    by (simp add: Select_expose_def update_conv')
  have later: "fmlookup (foldl (++\<^sub>f) fmempty qs) = merged qs" for qs
    by (rule ext) (simp add: fmlookup_foldl_add merged_def split: option.splits)
  have main: "(case ?found of
      None \<Rightarrow> toOne s w = None
    | Some fromValue \<Rightarrow>
        (map_option (\<lambda>f. f (Obj (heap w fromValue))) (map_of (exposeMap s) (from_collection s)) =
           Some (Obj p)
         \<and> map (\<lambda>(c, cb). map_option (\<lambda>f. f (cb w (heap w fromValue))) (map_of (exposeMap s) c))
             (joinMap s) = map (\<lambda>q. Some (Obj q)) ps
         \<longrightarrow> toOne s w = Some (foldl (++\<^sub>f) fmempty (p # ps))
             \<and> fmlookup (foldl (++\<^sub>f) fmempty (p # ps)) = merged (p # ps)))"
  proof (cases ?found)
    case None
    then show ?thesis
      by (simp add: toOne_def)
  next
    case (Some r)
    have "toOne s w = Some (foldl (++\<^sub>f) fmempty (p # ps))"
      if "map_option (\<lambda>f. f (Obj (heap w r))) (map_of (exposeMap s) (from_collection s)) = Some (Obj p)"
        and "map (\<lambda>(c, cb). map_option (\<lambda>f. f (cb w (heap w r))) (map_of (exposeMap s) c)) (joinMap s) =
             map (\<lambda>q. Some (Obj q)) ps"
      using Some projections_parts [OF that]
      by (simp only: toOne_def handleFromValue_foldl option.case)
    with later [of "p # ps"] show ?thesis
      unfolding Some option.case by blast
  qed
  show ?thesis
    by (intro conjI main toOne_identity from1 from2 join1 join2 expose1 joinMap_Select_join)
qed

theorem toOne_merges_projections_witness:
  "MemoryCollection_searchOne (from_collection posts_select) (condition posts_select) select_world =
     Some 10
   \<and> map_option (\<lambda>f. f (Obj (heap select_world 10)))
       (map_of (exposeMap posts_select) (from_collection posts_select)) =
     Some (Obj (fmap_of_list [(''_id'', Str ''1''), (''name'', Str ''Alice'')]))
   \<and> map (\<lambda>(c, cb). map_option (\<lambda>f. f (cb select_world (heap select_world 10)))
            (map_of (exposeMap posts_select) c)) (joinMap posts_select) =
     map (\<lambda>q. Some (Obj q))
       [fmap_of_list [(''posts'', Arr [Obj (heap select_world 12), Obj (heap select_world 13)])],
        fmap_of_list [(''name'', Str ''Alicia''), (''city'', Str ''Oslo'')]]
   \<and> toOne posts_select select_world =
     Some (fmap_of_list
       [(''_id'', Str ''1''), (''name'', Str ''Alicia''), (''city'', Str ''Oslo''),
        (''posts'',
         Arr [Obj (fmap_of_list [(''_id'', Str ''1''), (''title'', Str ''Post 1''), (''userId'', Str ''1'')]),
              Obj (fmap_of_list [(''_id'', Str ''2''), (''title'', Str ''Post 2''), (''userId'', Str ''1'')])])])
   \<and> toOne (Select_join 1 posts_of (Select_from 0)) select_world =
     Some (fmap_of_list
       [(''_id'', Str ''1''), (''name'', Str ''Alice''),
        (''0'', Obj (fmap_of_list [(''_id'', Str ''1''), (''title'', Str ''Post 1''), (''userId'', Str ''1'')])),
        (''1'', Obj (fmap_of_list [(''_id'', Str ''2''), (''title'', Str ''Post 2''), (''userId'', Str ''1'')]))])
   \<and> toOne (Select_where (Some (id_in [Some ''9''])) (Select_from 0)) select_world = None"
proof -
  let ?p = "fmap_of_list [(''_id'', Str ''1''), (''name'', Str ''Alice'')]"
  let ?ps = "[fmap_of_list [(''posts'', Arr [Obj (heap select_world 12), Obj (heap select_world 13)])],
        fmap_of_list [(''name'', Str ''Alicia''), (''city'', Str ''Oslo'')]]"
  have found: "MemoryCollection_searchOne (from_collection posts_select) (condition posts_select)
      select_world = Some 10"
    by code_simp
  have source: "map_option (\<lambda>f. f (Obj (heap select_world 10)))
       (map_of (exposeMap posts_select) (from_collection posts_select)) = Some (Obj ?p)"
    by code_simp
  have joins: "map (\<lambda>(c, cb). map_option (\<lambda>f. f (cb select_world (heap select_world 10)))
            (map_of (exposeMap posts_select) c)) (joinMap posts_select) =
     map (\<lambda>q. Some (Obj q)) ?ps"
    by code_simp
  have "toOne posts_select select_world = Some (foldl (++\<^sub>f) fmempty (?p # ?ps))"
    using toOne_merges_projections [where s = posts_select and w = select_world and p = ?p and ps = ?ps]
      source joins
    by (simp only: found option.case simp_thms)
  also have "\<dots> = Some (fmap_of_list
       [(''_id'', Str ''1''), (''name'', Str ''Alicia''), (''city'', Str ''Oslo''),
        (''posts'',
         Arr [Obj (fmap_of_list [(''_id'', Str ''1''), (''title'', Str ''Post 1''), (''userId'', Str ''1'')]),
              Obj (fmap_of_list [(''_id'', Str ''2''), (''title'', Str ''Post 2''), (''userId'', Str ''1'')])])])"
    by code_simp
  finally have merged_result: "toOne posts_select select_world = Some (fmap_of_list
       [(''_id'', Str ''1''), (''name'', Str ''Alicia''), (''city'', Str ''Oslo''),
        (''posts'',
         Arr [Obj (fmap_of_list [(''_id'', Str ''1''), (''title'', Str ''Post 1''), (''userId'', Str ''1'')]),
              Obj (fmap_of_list [(''_id'', Str ''2''), (''title'', Str ''Post 2''), (''userId'', Str ''1'')])])])" .
  have indices: "toOne (Select_join 1 posts_of (Select_from 0)) select_world =
     Some (fmap_of_list
       [(''_id'', Str ''1''), (''name'', Str ''Alice''),
        (''0'', Obj (fmap_of_list [(''_id'', Str ''1''), (''title'', Str ''Post 1''), (''userId'', Str ''1'')])),
        (''1'', Obj (fmap_of_list [(''_id'', Str ''2''), (''title'', Str ''Post 2''), (''userId'', Str ''1'')]))])"
    by code_simp
  have absent: "toOne (Select_where (Some (id_in [Some ''9''])) (Select_from 0)) select_world = None"
    by code_simp
  from found source joins merged_result indices absent show ?thesis
    by (intro conjI)
qed

text \<open>The records of the test world: a query by id returns the record's fields.\<close>

lemma select_example:
  "toOne (Select_where (Some (id_in [Some ''2''])) (Select_from 0)) stored_world =
     Some (fmap_of_list [(''_id'', Str ''2''), (''name'', Str ''Jane''), (''age'', Num 25)])"
  by code_simp

section \<open>Saving through a transaction, then rolling back\<close>

text \<open>
  The compensation of a \<open>save\<close> deletes the records whose \<open>_id\<close> is, when it runs, the \<open>_id\<close> of
  a saved item. On a collection keyed by its records' ids this removes exactly the entries
  under these ids.
\<close>

lemma set_mmap_proj [simp]:
  "heap (set_mmap c m w) = heap w"
  "mmap (collections (set_mmap c m w) c) = m"
  "v4_src (set_mmap c m w) = v4_src w"
  "v4_count (set_mmap c m w) = v4_count w"
  "transactions (set_mmap c m w) = transactions w"
  by (simp_all add: set_mmap_def)

lemma set_mmap_twice [simp]: "set_mmap c m (set_mmap c m' w) = set_mmap c m w"
  by (simp add: set_mmap_def)

lemma set_mmap_same [simp]: "set_mmap c (mmap (collections w c)) w = w"
  by (simp add: set_mmap_def)

lemma delete_step_eq:
  "delete_step c r w =
     set_mmap c (filter (\<lambda>(k, x). item_id (heap w r) \<noteq> Some k) (mmap (collections w c))) w"
  by (cases "item_id (heap w r)") (simp_all add: delete_step_def AList.delete_eq split_beta)

lemma fold_delete_step:
  "fold (delete_step c) rs w =
     set_mmap c
       (filter (\<lambda>(k, x). Some k \<notin> set (map (\<lambda>r. item_id (heap w r)) rs)) (mmap (collections w c))) w"
proof (induction rs arbitrary: w)
  case Nil
  show ?case by simp
next
  case (Cons r rs)
  let ?w = "delete_step c r w"
  have "fold (delete_step c) (r # rs) w = fold (delete_step c) rs ?w"
    by simp
  also have "\<dots> = set_mmap c
       (filter (\<lambda>(k, x). Some k \<notin> set (map (\<lambda>r. item_id (heap ?w r)) rs)) (mmap (collections ?w c))) ?w"
    by (rule Cons.IH)
  also have "\<dots> = set_mmap c
       (filter (\<lambda>(k, x). Some k \<notin> set (map (\<lambda>r. item_id (heap w r)) (r # rs)))
          (mmap (collections w c))) w"
    unfolding delete_step_eq
    by (auto simp: split_beta intro!: arg_cong [where f = "\<lambda>m. set_mmap c m w"] filter_cong)
  finally show ?case .
qed

lemma keyed_by_id_entry:
  "keyed_by_id c w \<Longrightarrow> (k, r) \<in> set (mmap (collections w c)) \<Longrightarrow> item_id (heap w r) = Some k"
  by (auto simp: keyed_by_id_def list_all_iff)

lemma run_DeleteFn:
  assumes "keyed_by_id c w"
  shows "run_fn (DeleteFn c its) w =
     set_mmap c
       (filter (\<lambda>(k, x). Some k \<notin> set (map (\<lambda>r. item_id (heap w r)) its)) (mmap (collections w c))) w"
proof -
  let ?ids = "map (\<lambda>r. item_id (heap w r)) its"
  let ?m = "mmap (collections w c)"
  let ?result = "filter (\<lambda>r. id_in ?ids (heap w r)) (map snd ?m)"
  have found: "(Some k \<in> set (map (\<lambda>r. item_id (heap w r)) ?result)) = (Some k \<in> set ?ids)"
    if "(k, x) \<in> set ?m" for k x
  proof
    assume "Some k \<in> set (map (\<lambda>r. item_id (heap w r)) ?result)"
    then obtain r where "id_in ?ids (heap w r)" and "item_id (heap w r) = Some k"
      by auto
    then show "Some k \<in> set ?ids"
      by (simp add: id_in_def)
  next
    assume "Some k \<in> set ?ids"
    moreover have "item_id (heap w x) = Some k"
      using assms that by (rule keyed_by_id_entry)
    ultimately have "id_in ?ids (heap w x)"
      by (simp add: id_in_def)
    with that \<open>item_id (heap w x) = Some k\<close> show "Some k \<in> set (map (\<lambda>r. item_id (heap w r)) ?result)"
      by force
  qed
  have "filter (\<lambda>(k, x). Some k \<notin> set (map (\<lambda>r. item_id (heap w r)) ?result)) ?m =
        filter (\<lambda>(k, x). Some k \<notin> set ?ids) ?m"
  proof (rule filter_cong [OF refl])
    fix p
    assume "p \<in> set ?m"
    then have "(fst p, snd p) \<in> set ?m"
      by simp
    then show "(case p of (k, x) \<Rightarrow> Some k \<notin> set (map (\<lambda>r. item_id (heap w r)) ?result)) =
               (case p of (k, x) \<Rightarrow> Some k \<notin> set ?ids)"
      by (simp only: split_beta found)
  qed
  then show ?thesis
    by (simp add: MemoryCollection_delete_def MemoryCollection_search_def query_def
        fold_delete_step Let_def)
qed

lemma keyed_by_id_filter:
  "keyed_by_id c w \<Longrightarrow> keyed_by_id c (set_mmap c (filter P (mmap (collections w c))) w)"
  by (simp add: keyed_by_id_def list_all_iff)

lemma run_DeleteFns:
  assumes "keyed_by_id c w"
  shows "fold run_fn (map (DeleteFn c) iss) w =
     set_mmap c
       (filter (\<lambda>(k, x). Some k \<notin> set (map (\<lambda>r. item_id (heap w r)) (concat iss)))
          (mmap (collections w c))) w"
  using assms
proof (induction iss arbitrary: w)
  case Nil
  show ?case by simp
next
  case (Cons its iss)
  let ?w = "set_mmap c
       (filter (\<lambda>(k, x). Some k \<notin> set (map (\<lambda>r. item_id (heap w r)) its)) (mmap (collections w c))) w"
  have step: "run_fn (DeleteFn c its) w = ?w"
    using Cons.prems by (rule run_DeleteFn)
  have keyed: "keyed_by_id c ?w"
    using Cons.prems by (rule keyed_by_id_filter)
  have "fold run_fn (map (DeleteFn c) (its # iss)) w = fold run_fn (map (DeleteFn c) iss) ?w"
    by (simp add: step del: run_fn.simps)
  also have "\<dots> = set_mmap c
       (filter (\<lambda>(k, x). Some k \<notin> set (map (\<lambda>r. item_id (heap ?w r)) (concat iss)))
          (mmap (collections ?w c))) ?w"
    using keyed by (rule Cons.IH)
  also have "\<dots> = set_mmap c
       (filter (\<lambda>(k, x). Some k \<notin> set (map (\<lambda>r. item_id (heap w r)) (concat (its # iss))))
          (mmap (collections w c))) w"
    by (auto simp: split_beta intro!: arg_cong [where f = "\<lambda>m. set_mmap c m w"] filter_cong)
  finally show ?case .
qed

text \<open>
  While the saves run, the entries of the collection under ids that no logged item holds are
  the entries from before the transaction, and the records of these are untouched.
\<close>

lemma list_all_update:
  "list_all P al \<Longrightarrow> P (k, v) \<Longrightarrow> list_all P (AList.update k v al)"
  by (induction al) auto

lemma well_keyed_entry:
  assumes "well_keyed c w" and "(k, r) \<in> set (mmap (collections w c))"
  shows "item_id (heap w r) = Some k" and "\<not> falsy_id (heap w r)"
  using assms by (auto simp: well_keyed_def list_all_iff falsy_id_def)

lemma well_keyed_keyed: "well_keyed c w \<Longrightarrow> keyed_by_id c w"
  by (auto simp: well_keyed_def keyed_by_id_def list_all_iff)

lemma save_step_mmap:
  "\<exists>k. item_id (heap (save_step c r w) r) = Some k
     \<and> mmap (collections (save_step c r w) c) = AList.update k r (mmap (collections w c))"
proof (cases "falsy_id (heap w r)")
  case True
  then show ?thesis
    by (simp add: save_step_falsy assign_v4_def item_id_assigned)
next
  case False
  then obtain k where "item_id (heap w r) = Some k"
    and "save_step c r w = set_mmap c (AList.update k r (mmap (collections w c))) w"
    by (rule save_step_truthy)
  then show ?thesis
    by simp
qed

lemma save_step_well_keyed:
  assumes "v4_src w (v4_count w) \<noteq> []" and "well_keyed c w"
  shows "well_keyed c (save_step c r w)"
proof -
  let ?w = "save_step c r w"
  let ?P = "\<lambda>(k, x). k \<noteq> [] \<and> item_id (heap ?w x) = Some k"
  obtain k where k: "item_id (heap ?w r) = Some k"
    and m: "mmap (collections ?w c) = AList.update k r (mmap (collections w c))"
    using save_step_mmap [of c r w] by blast
  have "\<not> falsy_id (heap ?w r)"
    using assms(1) by (rule save_step_filled)
  with k have new: "?P (k, r)"
    by (simp add: falsy_id_def)
  have "?P p" if "p \<in> set (mmap (collections w c))" for p
  proof -
    from that have "(fst p, snd p) \<in> set (mmap (collections w c))"
      by simp
    from well_keyed_entry [OF assms(2) this] assms(2) that show ?thesis
      by (auto simp: save_step_heap_truthy well_keyed_def list_all_iff)
  qed
  then have "list_all ?P (mmap (collections w c))"
    by (simp add: list_all_iff)
  then have "list_all ?P (AList.update k r (mmap (collections w c)))"
    using new by (rule list_all_update)
  then show ?thesis
    by (simp add: well_keyed_def m)
qed

lemma fold_save_well_keyed:
  assumes "\<forall>n. v4_src w n \<noteq> []" and "well_keyed c w"
  shows "well_keyed c (fold (save_step c) items w)"
  using assms
  by (induction items arbitrary: w) (simp_all add: save_step_well_keyed)

lemma filter_update_in:
  "Some k \<in> B \<Longrightarrow>
   filter (\<lambda>(k', x). Some k' \<notin> B) (AList.update k v al) = filter (\<lambda>(k', x). Some k' \<notin> B) al"
  by (induction al) auto

lemma fold_save_filter:
  assumes "\<forall>n. v4_src w n \<noteq> []"
    and "\<forall>r\<in>set items. item_id (heap (fold (save_step c) items w) r) \<in> B"
  shows "filter (\<lambda>(k, x). Some k \<notin> B) (mmap (collections (fold (save_step c) items w) c)) =
         filter (\<lambda>(k, x). Some k \<notin> B) (mmap (collections w c))"
  using assms
proof (induction items arbitrary: w)
  case Nil
  show ?case by simp
next
  case (Cons x items)
  let ?w = "save_step c x w"
  let ?w' = "fold (save_step c) items ?w"
  have v4: "\<forall>n. v4_src ?w n \<noteq> []"
    using Cons.prems(1) by simp
  obtain k where k: "item_id (heap ?w x) = Some k"
    and m: "mmap (collections ?w c) = AList.update k x (mmap (collections w c))"
    using save_step_mmap [of c x w] by blast
  have "\<not> falsy_id (heap ?w x)"
    using Cons.prems(1) by (simp add: save_step_filled)
  then have "heap ?w' x = heap ?w x"
    by (rule fold_save_heap_truthy)
  with Cons.prems(2) k have "Some k \<in> B"
    by simp
  have "filter (\<lambda>(k, x). Some k \<notin> B) (mmap (collections ?w' c)) =
        filter (\<lambda>(k, x). Some k \<notin> B) (mmap (collections ?w c))"
    using v4 Cons.prems(2) by (intro Cons.IH) simp_all
  also have "\<dots> = filter (\<lambda>(k, x). Some k \<notin> B) (mmap (collections w c))"
    using \<open>Some k \<in> B\<close> by (simp only: m filter_update_in)
  finally show ?case by simp
qed

lemma fold_save_avoids:
  assumes "\<forall>n. v4_src w n \<noteq> []" and "\<forall>n\<ge>v4_count w. v4_src w n \<notin> K"
    and "item_id (heap w r) \<notin> Some ` K"
  shows "item_id (heap (fold (save_step c) items w) r) \<notin> Some ` K"
proof (cases "r \<in> set items \<and> falsy_id (heap w r)")
  case True
  with fold_save_heap_falsy [OF assms(1), of r items c]
  obtain n where "v4_count w \<le> n"
    and "heap (fold (save_step c) items w) r = fmupd ''_id'' (Str (v4_src w n)) (heap w r)"
    by blast
  with assms(2) show ?thesis
    by (auto simp: item_id_assigned)
next
  case False
  then have "heap (fold (save_step c) items w) r = heap w r"
    by (auto simp: fold_save_heap_truthy fold_save_heap_other)
  with assms(3) show ?thesis
    by simp
qed

lemma push_fn_proj [simp]:
  "heap (push_fn t f w) = heap w"
  "collections (push_fn t f w) = collections w"
  "v4_src (push_fn t f w) = v4_src w"
  "v4_count (push_fn t f w) = v4_count w"
  "transactions (push_fn t f w) =
     (transactions w)(t := (transactions w t)\<lparr>rollbackFns := rollbackFns (transactions w t) @ [f]\<rparr>)"
  by (simp_all add: push_fn_def upd_tx_def)

lemma Transaction_save_snd:
  "snd (Transaction_save t items w) =
     (if items \<noteq> [] \<and> begun (transactions w t)
      then push_fn t (DeleteFn (collection (transactions w t)) items)
             (fold (save_step (collection (transactions w t))) items w)
      else fold (save_step (collection (transactions w t))) items w)"
  by (simp add: Transaction_save_def MemoryCollection_save_def Let_def
      tx_stateD [OF tx_state_fold_save])

lemma saves_snoc: "saves t (itemss @ [items]) w = snd (Transaction_save t items (saves t itemss w))"
  by (simp add: saves_def)

lemma concat_nonempty: "concat (filter (\<lambda>xs. xs \<noteq> []) xss) = concat xss"
  by (induction xss) simp_all

lemma saves_invariant:
  assumes c: "c = collection (transactions w t)" and m: "m = mmap (collections w c)"
    and active: "begun (transactions w t)"
    and keyed: "well_keyed c w"
    and v4: "\<forall>n. v4_src w n \<noteq> []"
    and fresh: "\<forall>n\<ge>v4_count w. v4_src w n \<notin> fst ` set m"
    and new: "\<forall>r\<in>set (concat itemss). item_id (heap w r) \<notin> Some ` fst ` set m"
  shows "transactions (saves t itemss w) =
           (transactions w)
           (t := (transactions w t)
              \<lparr>rollbackFns := rollbackFns (transactions w t) @
                 map (DeleteFn c) (filter (\<lambda>xs. xs \<noteq> []) itemss)\<rparr>)
       \<and> well_keyed c (saves t itemss w)
       \<and> filter (\<lambda>(k, x). Some k \<notin> set (map (\<lambda>r. item_id (heap (saves t itemss w) r)) (concat itemss)))
           (mmap (collections (saves t itemss w) c)) = m
       \<and> (\<forall>r. \<not> falsy_id (heap w r) \<longrightarrow> heap (saves t itemss w) r = heap w r)
       \<and> (\<forall>r\<in>set (concat itemss). \<not> falsy_id (heap (saves t itemss w) r))
       \<and> (\<forall>r. item_id (heap w r) \<notin> Some ` fst ` set m \<longrightarrow>
              item_id (heap (saves t itemss w) r) \<notin> Some ` fst ` set m)
       \<and> v4_src (saves t itemss w) = v4_src w
       \<and> v4_count w \<le> v4_count (saves t itemss w)"
  using new
proof (induction itemss rule: rev_induct)
  case Nil
  show ?case
    using keyed m by (simp add: saves_def)
next
  case (snoc items itemss)
  let ?w' = "saves t itemss w"
  let ?w'' = "fold (save_step c) items ?w'"
  let ?w3 = "saves t (itemss @ [items]) w"
  let ?K = "fst ` set m"
  from snoc.prems have "\<forall>r\<in>set (concat itemss). item_id (heap w r) \<notin> Some ` ?K"
    by simp
  from snoc.IH [OF this]
  have tx: "transactions ?w' =
           (transactions w)
           (t := (transactions w t)
              \<lparr>rollbackFns := rollbackFns (transactions w t) @
                 map (DeleteFn c) (filter (\<lambda>xs. xs \<noteq> []) itemss)\<rparr>)"
    and keyed': "well_keyed c ?w'"
    and filt: "filter (\<lambda>(k, x). Some k \<notin> set (map (\<lambda>r. item_id (heap ?w' r)) (concat itemss)))
           (mmap (collections ?w' c)) = m"
    and same: "\<And>r. \<not> falsy_id (heap w r) \<Longrightarrow> heap ?w' r = heap w r"
    and filled: "\<And>r. r \<in> set (concat itemss) \<Longrightarrow> \<not> falsy_id (heap ?w' r)"
    and avoid: "\<And>r. item_id (heap w r) \<notin> Some ` ?K \<Longrightarrow> item_id (heap ?w' r) \<notin> Some ` ?K"
    and src: "v4_src ?w' = v4_src w"
    and count: "v4_count w \<le> v4_count ?w'"
    by blast+
  have c': "collection (transactions ?w' t) = c" and active': "begun (transactions ?w' t)"
    using c active by (simp_all add: tx)
  have v4': "\<forall>n. v4_src ?w' n \<noteq> []"
    using v4 by (simp add: src)
  have fresh': "\<forall>n\<ge>v4_count ?w'. v4_src ?w' n \<notin> ?K"
    using fresh count by (simp add: src)
  have heap3: "heap ?w3 = heap ?w''" and coll3: "collections ?w3 = collections ?w''"
    and src3: "v4_src ?w3 = v4_src ?w''" and count3: "v4_count ?w3 = v4_count ?w''"
    by (simp_all add: saves_snoc Transaction_save_snd c')
  have tx3: "transactions ?w3 =
           (transactions w)
           (t := (transactions w t)
              \<lparr>rollbackFns := rollbackFns (transactions w t) @
                 map (DeleteFn c) (filter (\<lambda>xs. xs \<noteq> []) (itemss @ [items]))\<rparr>)"
    using active' c
    by (simp add: saves_snoc Transaction_save_snd c' tx_stateD [OF tx_state_fold_save] tx)
  have keyed3: "well_keyed c ?w3"
    using fold_save_well_keyed [OF v4' keyed', of items]
    by (simp add: well_keyed_def heap3 coll3)
  have same'': "heap ?w'' r = heap ?w' r" if "\<not> falsy_id (heap ?w' r)" for r
    using that by (rule fold_save_heap_truthy)
  have same3: "heap ?w3 r = heap w r" if "\<not> falsy_id (heap w r)" for r
    using that same [OF that] same'' [of r] by (simp add: heap3)
  have filled3: "\<not> falsy_id (heap ?w3 r)" if "r \<in> set (concat (itemss @ [items]))" for r
  proof (cases "r \<in> set items")
    case True
    with v4' show ?thesis
      by (simp add: heap3 fold_save_filled)
  next
    case False
    with that have "r \<in> set (concat itemss)"
      by simp
    then have "\<not> falsy_id (heap ?w' r)"
      by (rule filled)
    then show ?thesis
      by (simp add: heap3 same'')
  qed
  have avoid3: "item_id (heap ?w3 r) \<notin> Some ` ?K" if "item_id (heap w r) \<notin> Some ` ?K" for r
    using fold_save_avoids [OF v4' fresh' avoid [OF that], of c items] by (simp add: heap3)
  let ?old = "set (map (\<lambda>r. item_id (heap ?w' r)) (concat itemss))"
  let ?new = "set (map (\<lambda>r. item_id (heap ?w'' r)) items)"
  let ?B = "set (map (\<lambda>r. item_id (heap ?w3 r)) (concat (itemss @ [items])))"
  have "set (map (\<lambda>r. item_id (heap ?w'' r)) (concat itemss)) = ?old"
    using filled by (intro arg_cong [where f = set] map_cong refl) (simp add: same'')
  then have B: "?B = ?old \<union> ?new"
    by (simp add: heap3)
  have disjoint: "Some k \<notin> ?new" if "(k, x) \<in> set m" for k x
  proof
    assume "Some k \<in> ?new"
    then obtain r where r: "r \<in> set items" and "item_id (heap ?w'' r) = Some k"
      by auto
    moreover from r snoc.prems have "item_id (heap ?w3 r) \<notin> Some ` ?K"
      by (intro avoid3) simp
    ultimately show False
      using that by (force simp: heap3)
  qed
  have "filter (\<lambda>(k, x). Some k \<notin> ?B) (mmap (collections ?w3 c)) =
        filter (\<lambda>(k, x). Some k \<notin> ?B) (mmap (collections ?w' c))"
    unfolding coll3 using v4' by (rule fold_save_filter) (simp add: heap3)
  also have "\<dots> = filter (\<lambda>(k, x). Some k \<notin> ?new)
                     (filter (\<lambda>(k, x). Some k \<notin> ?old) (mmap (collections ?w' c)))"
    unfolding B by (auto simp: split_beta intro!: filter_cong)
  also have "\<dots> = filter (\<lambda>(k, x). Some k \<notin> ?new) m"
    by (simp only: filt)
  also have "\<dots> = m"
    using disjoint by (auto simp: filter_id_conv)
  finally have filt3: "filter (\<lambda>(k, x). Some k \<notin> ?B) (mmap (collections ?w3 c)) = m" .
  have count3': "v4_count w \<le> v4_count ?w3"
    using count fold_save_v4_count [of ?w' c items] by (simp add: count3)
  from tx3 keyed3 filt3 same3 filled3 avoid3 count3' show ?case
    by (simp add: src3 src)
qed

lemma Transaction_rollback_fold:
  "Transaction_rollback t w =
     Transaction_end t
       (upd_tx t (\<lambda>x. x\<lparr>rollbackFns := []\<rparr>) (fold run_fn (rev (rollbackFns (transactions w t))) w))"
  by (simp add: Transaction_rollback_def Let_def rollback_loop_fold)

lemma records_data: "data_state w' = data_state w \<Longrightarrow> records c w' = records c w"
  by (simp add: records_def data_state_def)

lemma records_rollback:
  "records c (Transaction_rollback t w) =
   records c (fold run_fn (rev (rollbackFns (transactions w t))) w)"
  unfolding Transaction_rollback_fold
  by (rule records_data) simp

text \<open>
  Saves of new records are undone: for a transaction that is active with an empty log on a
  collection keyed by its records' non-empty ids, where \<open>v4()\<close> returns non-empty identifiers
  that are not ids of the collection, any sequence of \<open>save\<close> calls whose items carry no id of
  the collection, followed by \<open>rollback()\<close>, leaves the record set of the collection as it
  was.
\<close>

theorem save_rollback_net_zero:
  assumes "begun (transactions w t)" and "rollbackFns (transactions w t) = []"
    and "well_keyed (collection (transactions w t)) w"
    and "\<forall>n. v4_src w n \<noteq> []"
    and "\<forall>n\<ge>v4_count w.
           MemoryCollection_getById (collection (transactions w t)) (v4_src w n) w = None"
    and "\<forall>items\<in>set itemss. \<forall>r\<in>set items. missing (collection (transactions w t)) w r"
  shows "records (collection (transactions w t)) (Transaction_rollback t (saves t itemss w)) =
         records (collection (transactions w t)) w"
proof -
  define c where "c = collection (transactions w t)"
  define m where "m = mmap (collections w c)"
  let ?w' = "saves t itemss w"
  let ?iss = "filter (\<lambda>xs. xs \<noteq> []) itemss"
  have absent: "MemoryCollection_getById c k w = None \<longleftrightarrow> k \<notin> fst ` set m" for k
    by (simp add: MemoryCollection_getById_def m_def map_of_eq_None_iff)
  have fresh: "\<forall>n\<ge>v4_count w. v4_src w n \<notin> fst ` set m"
    using assms(5) by (simp add: c_def [symmetric] absent)
  have new: "\<forall>r\<in>set (concat itemss). item_id (heap w r) \<notin> Some ` fst ` set m"
    using assms(6) by (auto simp: c_def [symmetric] missing_def absent split: option.splits)
  have keyed: "well_keyed c w"
    using assms(3) by (simp add: c_def)
  note inv = saves_invariant [OF c_def m_def assms(1) keyed assms(4) fresh new]
  from inv have log: "rollbackFns (transactions ?w' t) = map (DeleteFn c) ?iss"
    by (simp add: assms(2))
  from inv have keyed': "keyed_by_id c ?w'"
    by (simp add: well_keyed_keyed)
  from inv have filt:
    "filter (\<lambda>(k, x). Some k \<notin> set (map (\<lambda>r. item_id (heap ?w' r)) (concat itemss)))
       (mmap (collections ?w' c)) = m"
    by blast
  from inv have same: "heap ?w' r = heap w r" if "\<not> falsy_id (heap w r)" for r
    using that by blast
  have "fold run_fn (rev (rollbackFns (transactions ?w' t))) ?w' =
        fold run_fn (map (DeleteFn c) (rev ?iss)) ?w'"
    by (simp only: log rev_map)
  also have "\<dots> = set_mmap c
       (filter (\<lambda>(k, x). Some k \<notin> set (map (\<lambda>r. item_id (heap ?w' r)) (concat (rev ?iss))))
          (mmap (collections ?w' c))) ?w'"
    using keyed' by (rule run_DeleteFns)
  also have "set (map (\<lambda>r. item_id (heap ?w' r)) (concat (rev ?iss))) =
             set (map (\<lambda>r. item_id (heap ?w' r)) (concat itemss))"
  proof -
    have "set (concat (rev ?iss)) = set (concat ?iss)"
      by simp
    also have "\<dots> = set (concat itemss)"
      by (simp only: concat_nonempty)
    finally show ?thesis
      by (simp only: set_map)
  qed
  finally have rolled: "fold run_fn (rev (rollbackFns (transactions ?w' t))) ?w' = set_mmap c m ?w'"
    by (simp only: filt)
  have "records c (Transaction_rollback t ?w') = records c (set_mmap c m ?w')"
    by (simp only: records_rollback rolled)
  also have "\<dots> = map (\<lambda>(k, r). (k, heap ?w' r)) m"
    by (simp add: records_def)
  also have "\<dots> = map (\<lambda>(k, r). (k, heap w r)) m"
  proof (rule map_cong [OF refl])
    fix p
    assume "p \<in> set m"
    then have "(fst p, snd p) \<in> set (mmap (collections w c))"
      by (simp add: m_def)
    with keyed have "\<not> falsy_id (heap w (snd p))"
      by (rule well_keyed_entry)
    then show "(case p of (k, r) \<Rightarrow> (k, heap ?w' r)) = (case p of (k, r) \<Rightarrow> (k, heap w r))"
      by (simp add: split_beta same)
  qed
  also have "\<dots> = records c w"
    by (simp add: records_def m_def)
  finally show ?thesis
    by (simp only: c_def)
qed

theorem save_rollback_net_zero_witness:
  "begun (transactions stored_world 0) \<and> rollbackFns (transactions stored_world 0) = []
   \<and> well_keyed (collection (transactions stored_world 0)) stored_world
   \<and> (\<forall>n. v4_src stored_world n \<noteq> [])
   \<and> (\<forall>n\<ge>v4_count stored_world.
         MemoryCollection_getById (collection (transactions stored_world 0)) (v4_src stored_world n)
           stored_world = None)
   \<and> (\<forall>items\<in>set [[2], [2]]. \<forall>r\<in>set items.
         missing (collection (transactions stored_world 0)) stored_world r)
   \<and> mmap (collections (saves 0 [[2], [2]] stored_world) 0) = [(''1'', 0), (''2'', 1), (''u'', 2)]
   \<and> records 0 (Transaction_rollback 0 (saves 0 [[2], [2]] stored_world)) =
       [(''1'', fmap_of_list [(''name'', Str ''John''), (''age'', Num 30), (''_id'', Str ''1'')]),
        (''2'', fmap_of_list [(''name'', Str ''Jane''), (''age'', Num 25), (''_id'', Str ''2'')])]"
proof -
  have c: "collection (transactions stored_world 0) = 0"
    by code_simp
  have a1: "begun (transactions stored_world 0)"
    and a2: "rollbackFns (transactions stored_world 0) = []"
    and a3: "well_keyed (collection (transactions stored_world 0)) stored_world"
    by code_simp+
  have v4: "v4_src stored_world = (\<lambda>n. replicate (Suc n) CHR ''u'')"
    by (simp add: stored_world_def test_world_def new_Transaction_def Transaction_begin_def
        setTimeout_def upd_tx_def MemoryCollection_save_def Let_def)
  have m: "mmap (collections stored_world 0) = [(''1'', 0), (''2'', 1)]"
    by code_simp
  have a4: "\<forall>n. v4_src stored_world n \<noteq> []"
    by (simp add: v4)
  have a5: "\<forall>n\<ge>v4_count stored_world.
         MemoryCollection_getById (collection (transactions stored_world 0)) (v4_src stored_world n)
           stored_world = None"
    by (simp add: c v4 m MemoryCollection_getById_def)
  have "item_id (heap stored_world 2) = None"
    by code_simp
  then have a6: "\<forall>items\<in>set [[2], [2]]. \<forall>r\<in>set items.
         missing (collection (transactions stored_world 0)) stored_world r"
    by (simp add: missing_def)
  have before: "records 0 stored_world =
       [(''1'', fmap_of_list [(''name'', Str ''John''), (''age'', Num 30), (''_id'', Str ''1'')]),
        (''2'', fmap_of_list [(''name'', Str ''Jane''), (''age'', Num 25), (''_id'', Str ''2'')])]"
    by code_simp
  have saved: "mmap (collections (saves 0 [[2], [2]] stored_world) 0) = [(''1'', 0), (''2'', 1), (''u'', 2)]"
    by code_simp
  from save_rollback_net_zero [OF a1 a2 a3 a4 a5 a6] a1 a2 a3 a4 a5 a6 before saved
  show ?thesis
    by (simp only: c simp_thms)
qed

text \<open>
  Claim C1. The claim fails for an item whose \<open>_id\<close> exists in the collection: the \<open>save\<close>
  replaces the stored record, and the compensation deletes the id instead of putting the
  replaced record back. In the test world, saving Eve under John's id and rolling back leaves
  Jane alone; John is lost.
\<close>

theorem save_existing_rollback_deletes:
  "records 0 stored_world =
     [(''1'', fmap_of_list [(''name'', Str ''John''), (''age'', Num 30), (''_id'', Str ''1'')]),
      (''2'', fmap_of_list [(''name'', Str ''Jane''), (''age'', Num 25), (''_id'', Str ''2'')])]
   \<and> records 0 (snd (Transaction_save 0 [4] stored_world)) =
     [(''1'', fmap_of_list [(''_id'', Str ''1''), (''name'', Str ''Eve'')]),
      (''2'', fmap_of_list [(''name'', Str ''Jane''), (''age'', Num 25), (''_id'', Str ''2'')])]
   \<and> records 0 (Transaction_rollback 0 (snd (Transaction_save 0 [4] stored_world))) =
     [(''2'', fmap_of_list [(''name'', Str ''Jane''), (''age'', Num 25), (''_id'', Str ''2'')])]"
  by code_simp

section \<open>Updating through a transaction, then rolling back\<close>

lemma MemoryCollection_update_ids:
  assumes "keyed_by_id c w"
  shows "item_id (heap (snd (MemoryCollection_update c items w)) y) = item_id (heap w y)"
  using assms
proof (induction items arbitrary: w)
  case Nil
  show ?case by simp
next
  case (Cons x items)
  show ?case
  proof (cases "missing c w x")
    case True
    then show ?thesis
      by (auto simp: missing_def MemoryCollection_getById_def split: option.splits)
  next
    case False
    then obtain k oldData where k: "item_id (heap w x) = Some k"
      and old: "map_of (mmap (collections w c)) k = Some oldData"
      by (auto simp: missing_def MemoryCollection_getById_def split: option.splits)
    define w1 where "w1 = w\<lparr>heap := (heap w)(oldData := deepAssign (heap w oldData) (heap w x))\<rparr>"
    define w2 where "w2 = set_mmap c (AList.update k oldData (mmap (collections w1 c))) w1"
    have step: "MemoryCollection_update c (x # items) w = MemoryCollection_update c items w2"
      by (simp add: k old w1_def w2_def Let_def)
    have "item_id (heap w oldData) = Some k"
      using Cons.prems old by (rule keyed_by_idD)
    then have ids: "item_id (heap w2 y) = item_id (heap w y)" for y
      by (simp add: w2_def w1_def set_mmap_def item_id_deepAssign k)
    have m: "mmap (collections w2 c) = mmap (collections w c)"
      by (simp add: w2_def w1_def set_mmap_def update_same old)
    have "keyed_by_id c w2"
      using Cons.prems by (simp add: keyed_by_id_def m ids)
    then have "item_id (heap (snd (MemoryCollection_update c items w2)) y) = item_id (heap w2 y)"
      by (rule Cons.IH)
    then show ?thesis
      by (simp only: step ids)
  qed
qed

lemma search_stored:
  "r \<in> set (MemoryCollection_search c cond w) \<Longrightarrow> r \<in> snd ` set (mmap (collections w c))"
  by (auto simp: MemoryCollection_search_def)

text \<open>
  Claim C2. The snapshot that \<open>Transaction.update\<close> takes is the array of the stored records
  themselves, and \<open>MemoryCollection.update\<close> merges into these very records, so the
  compensation saves the updated records again. After an update that succeeded on a
  transaction with an empty log, over a collection keyed by its records' non-empty ids, the
  rollback changes no field of any record: what \<open>getById\<close> returns is as the update left it,
  not as the snapshot was. In the repository's own test, \<open>getById\<close> after the rollback returns
  Johnny, 31, not John, 30.
\<close>

theorem update_rollback_restores_nothing:
  assumes "well_keyed (collection (transactions w t)) w"
    and "rollbackFns (transactions w t) = []"
    and "fst (Transaction_update t items w) = None"
  shows "heap (Transaction_rollback t (snd (Transaction_update t items w))) =
         heap (snd (Transaction_update t items w))"
proof -
  define c where "c = collection (transactions w t)"
  define result where
    "result = MemoryCollection_search c (Some (id_in (map (\<lambda>r. item_id (heap w r)) items))) w"
  define wu where "wu = snd (MemoryCollection_update c items w)"
  let ?w1 = "snd (Transaction_update t items w)"
  have keyed: "well_keyed c w"
    using assms(1) by (simp add: c_def)
  have txu: "transactions wu = transactions w"
    unfolding wu_def by (rule tx_stateD [OF tx_state_update])
  obtain thrown where u: "MemoryCollection_update c items w = (thrown, wu)"
    by (cases "MemoryCollection_update c items w") (simp add: wu_def)
  with assms(3) have "thrown = None"
    by (simp add: Transaction_update_def Let_def c_def [symmetric] split: option.splits)
  with u have w1: "?w1 = (if result \<noteq> [] \<and> begun (transactions wu t)
                          then push_fn t (SaveFn c result) wu else wu)"
    by (simp add: Transaction_update_def Let_def c_def [symmetric] result_def)
  have heap1: "heap ?w1 = heap wu"
    by (simp add: w1)
  have log: "rollbackFns (transactions ?w1 t) = [] \<or> rollbackFns (transactions ?w1 t) = [SaveFn c result]"
    by (simp add: w1 txu assms(2))
  have truthy: "\<not> falsy_id (heap ?w1 r)" if "r \<in> set result" for r
  proof -
    from that obtain k where "(k, r) \<in> set (mmap (collections w c))"
      unfolding result_def by (auto dest!: search_stored)
    with keyed have "item_id (heap w r) = Some k" and "\<not> falsy_id (heap w r)"
      by (rule well_keyed_entry)+
    moreover have "item_id (heap wu r) = item_id (heap w r)"
      unfolding wu_def using well_keyed_keyed [OF keyed] by (rule MemoryCollection_update_ids)
    ultimately show ?thesis
      by (simp add: heap1 falsy_id_def)
  qed
  have saved: "heap (run_fn (SaveFn c result) ?w1) = heap ?w1"
  proof
    fix y
    show "heap (run_fn (SaveFn c result) ?w1) y = heap ?w1 y"
    proof (cases "y \<in> set result")
      case True
      then have "\<not> falsy_id (heap ?w1 y)"
        by (rule truthy)
      then show ?thesis
        by (simp add: MemoryCollection_save_def fold_save_heap_truthy)
    next
      case False
      then show ?thesis
        by (simp add: MemoryCollection_save_def fold_save_heap_other)
    qed
  qed
  have "heap (Transaction_rollback t ?w1) = heap (fold run_fn (rev (rollbackFns (transactions ?w1 t))) ?w1)"
    unfolding Transaction_rollback_fold by (rule data_stateD) simp
  also have "\<dots> = heap ?w1"
    using log saved by (auto simp del: run_fn.simps)
  finally show ?thesis .
qed

theorem update_rollback_keeps_update:
  "well_keyed (collection (transactions stored_world 0)) stored_world
   \<and> rollbackFns (transactions stored_world 0) = []
   \<and> fst (Transaction_update 0 [3] stored_world) = None
   \<and> map_option (heap stored_world) (Transaction_getById 0 ''1'' stored_world) =
       Some (fmap_of_list [(''name'', Str ''John''), (''age'', Num 30), (''_id'', Str ''1'')])
   \<and> rollbackFns (transactions updated_world 0) = [SaveFn 0 [0]]
   \<and> Transaction_getById 0 ''1'' (Transaction_rollback 0 updated_world) = Some 0
   \<and> heap (Transaction_rollback 0 updated_world) 0 =
       fmap_of_list [(''name'', Str ''Johnny''), (''age'', Num 31), (''_id'', Str ''1'')]"
proof -
  have a: "well_keyed (collection (transactions stored_world 0)) stored_world"
    and b: "rollbackFns (transactions stored_world 0) = []"
    and c: "fst (Transaction_update 0 [3] stored_world) = None"
    by code_simp+
  have d: "map_option (heap stored_world) (Transaction_getById 0 ''1'' stored_world) =
       Some (fmap_of_list [(''name'', Str ''John''), (''age'', Num 30), (''_id'', Str ''1'')])"
    and e: "rollbackFns (transactions updated_world 0) = [SaveFn 0 [0]]"
    and f: "Transaction_getById 0 ''1'' (Transaction_rollback 0 updated_world) = Some 0"
    and g: "heap updated_world 0 =
       fmap_of_list [(''name'', Str ''Johnny''), (''age'', Num 31), (''_id'', Str ''1'')]"
    by code_simp+
  from update_rollback_restores_nothing [OF a b c]
  have "heap (Transaction_rollback 0 updated_world) = heap updated_world"
    by (simp only: updated_world_def)
  with a b c d e f g show ?thesis
    by (simp only: simp_thms)
qed

end
